theory Spec2Isabelle
  imports Complex_Main "HOL-Library.Sublist"
begin

section \<open>JavaScript values, strings and numbers\<close>

text \<open>
  The curator is written in JavaScript. A JavaScript string is modelled as an Isabelle
  \<open>string\<close>, each \<open>char\<close> standing for one code unit in the range 0..255 (ASCII and the
  Latin-1 supplement); code units above 255 are outside the model. A JavaScript number is
  modelled by its exact rational value, with the three non-finite doubles as constructors
  of their own: the rounding, overflow and underflow of doubles are outside the model.
\<close>

datatype jsnum = Fin rat | NaN | PInf | NInf

datatype jsval =
    Undefined
  | Null
  | Bool bool
  | Num jsnum
  | Str string
  | Arr "jsval list"
  | Obj "(string \<times> jsval) list"
  | Fun string

datatype error =
    TypeError string
  | Error string
  | HttpError nat string

fun message :: "error \<Rightarrow> string" where
  "message (TypeError m) = m"
| "message (Error m) = m"
| "message (HttpError c m) = m"

fun statusCode :: "error \<Rightarrow> nat option" where
  "statusCode (HttpError c m) = Some c"
| "statusCode e = None"

text \<open>
  An object is the list of its own properties in the order of their creation; \<open>Fun\<close> is a
  built-in function, named.
\<close>

text \<open>Truthiness (\<open>ToBoolean\<close>): \<open>undefined\<close>, \<open>null\<close>, \<open>false\<close>, \<open>0\<close>, \<open>NaN\<close> and the
  empty string are falsy, everything else is truthy.\<close>

fun js_truthy :: "jsval \<Rightarrow> bool" where
  "js_truthy Undefined = False"
| "js_truthy Null = False"
| "js_truthy (Bool b) = b"
| "js_truthy (Num (Fin q)) = (q \<noteq> 0)"
| "js_truthy (Num NaN) = False"
| "js_truthy (Num n) = True"
| "js_truthy (Str s) = (s \<noteq> [])"
| "js_truthy (Arr xs) = True"
| "js_truthy (Obj kvs) = True"
| "js_truthy (Fun f) = True"

text \<open>The relational operator \<open><\<close> on numbers: every comparison with \<open>NaN\<close> is false.\<close>

fun js_lt :: "jsnum \<Rightarrow> jsnum \<Rightarrow> bool" where
  "js_lt NaN y = False"
| "js_lt x NaN = False"
| "js_lt (Fin a) (Fin b) = (a < b)"
| "js_lt (Fin a) PInf = True"
| "js_lt (Fin a) NInf = False"
| "js_lt PInf y = False"
| "js_lt NInf NInf = False"
| "js_lt NInf y = True"

definition code_unit :: "char \<Rightarrow> nat" where
  "code_unit c = of_char c"

text \<open>\<open>String.prototype.toLowerCase\<close> on the modelled code units: the ASCII capitals and
  the Latin-1 capitals U+00C0..U+00DE (without the multiplication sign U+00D7) move up by
  32.\<close>

definition lower_char :: "char \<Rightarrow> char" where
  "lower_char c =
     (let n = code_unit c in
      if (65 \<le> n \<and> n \<le> 90) \<or> (192 \<le> n \<and> n \<le> 222 \<and> n \<noteq> 215)
      then char_of (n + 32) else c)"

definition toLowerCase :: "string \<Rightarrow> string" where
  "toLowerCase s = map lower_char s"

text \<open>The white space of \<open>\s\<close>, of \<open>trim\<close> and of \<open>parseFloat\<close>: tab, line feed, vertical
  tab, form feed, carriage return, space and the no-break space.\<close>

definition is_space :: "char \<Rightarrow> bool" where
  "is_space c = (code_unit c \<in> {9, 10, 11, 12, 13, 32, 160})"

definition is_digit :: "char \<Rightarrow> bool" where
  "is_digit c = (48 \<le> code_unit c \<and> code_unit c \<le> 57)"

definition digit_val :: "char \<Rightarrow> int" where
  "digit_val c = int (code_unit c) - 48"

definition digits_val :: "string \<Rightarrow> int" where
  "digits_val ds = foldl (\<lambda>acc c. 10 * acc + digit_val c) 0 ds"

definition startsWith :: "string \<Rightarrow> string \<Rightarrow> bool" where
  "startsWith s p = prefix p s"

subsection \<open>parseFloat\<close>

text \<open>
  \<open>parseFloat\<close> skips leading white space and reads the longest prefix that is a decimal
  literal: an optional sign, then \<open>Infinity\<close>, or digits with an optional fraction and an
  optional exponent. An exponent marker without digits is not part of the literal. Without
  such a prefix the result is \<open>NaN\<close>.
\<close>

definition exponent_part :: "string \<Rightarrow> int \<times> string" where
  "exponent_part r =
     (if r \<noteq> [] \<and> (hd r = CHR ''e'' \<or> hd r = CHR ''E'') then
        (let r1 = tl r;
             signed = (r1 \<noteq> [] \<and> (hd r1 = CHR ''-'' \<or> hd r1 = CHR ''+''));
             r2 = (if signed then tl r1 else r1);
             ds = takeWhile is_digit r2
         in if ds = [] then (0, r)
            else (if signed \<and> hd r1 = CHR ''-'' then - digits_val ds else digits_val ds,
                  dropWhile is_digit r2))
      else (0, r))"

definition scale10 :: "rat \<Rightarrow> int \<Rightarrow> rat" where
  "scale10 m e = (if 0 \<le> e then m * 10 ^ nat e else m / 10 ^ nat (- e))"

text \<open>\<open>decimal_literal t\<close> is the value of the longest decimal literal that \<open>t\<close> starts with,
  and what follows the literal.\<close>

definition decimal_literal :: "string \<Rightarrow> jsnum \<times> string" where
  "decimal_literal t =
     (let neg = (t \<noteq> [] \<and> hd t = CHR ''-'');
          u = (if t \<noteq> [] \<and> (hd t = CHR ''-'' \<or> hd t = CHR ''+'') then tl t else t)
      in if startsWith u ''Infinity'' then (if neg then NInf else PInf, drop 8 u)
         else
           let ip = takeWhile is_digit u;
               r1 = dropWhile is_digit u;
               dot = (r1 \<noteq> [] \<and> hd r1 = CHR ''.'');
               fp = (if dot then takeWhile is_digit (tl r1) else []);
               r2 = (if dot then dropWhile is_digit (tl r1) else r1)
           in if ip = [] \<and> fp = [] then (NaN, t)
              else
                let mant = of_int (digits_val ip) + of_int (digits_val fp) / 10 ^ length fp;
                    v = scale10 mant (fst (exponent_part r2))
                in (Fin (if neg then - v else v), snd (exponent_part r2)))"

definition parseFloat :: "string \<Rightarrow> jsnum" where
  "parseFloat s = fst (decimal_literal (dropWhile is_space s))"

definition trim :: "string \<Rightarrow> string" where
  "trim s = rev (dropWhile is_space (rev (dropWhile is_space s)))"

text \<open>
  \<open>ToNumber\<close>. A string converts to the number it spells in full (white space around it
  apart, the empty string being 0): a decimal literal, or a hexadecimal, octal or binary
  integer with its prefix. An array converts through its string, which for two or more
  elements contains a comma.
\<close>

definition radix_digit :: "char \<Rightarrow> int" where
  "radix_digit c =
     (let n = int (code_unit c) in
      if 48 \<le> n \<and> n \<le> 57 then n - 48
      else if 97 \<le> n \<and> n \<le> 102 then n - 87
      else if 65 \<le> n \<and> n \<le> 70 then n - 55
      else 16)"

definition radix_literal :: "int \<Rightarrow> string \<Rightarrow> jsnum" where
  "radix_literal r ds =
     (if ds \<noteq> [] \<and> list_all (\<lambda>c. radix_digit c < r) ds
      then Fin (of_int (foldl (\<lambda>acc c. r * acc + radix_digit c) 0 ds))
      else NaN)"

definition string_to_number :: "string \<Rightarrow> jsnum" where
  "string_to_number s =
     (let t = trim s in
      if t = [] then Fin 0
      else if startsWith t ''0x'' \<or> startsWith t ''0X'' then radix_literal 16 (drop 2 t)
      else if startsWith t ''0o'' \<or> startsWith t ''0O'' then radix_literal 8 (drop 2 t)
      else if startsWith t ''0b'' \<or> startsWith t ''0B'' then radix_literal 2 (drop 2 t)
      else (case decimal_literal t of (v, rest) \<Rightarrow> if rest = [] then v else NaN))"

fun to_number :: "jsval \<Rightarrow> jsnum" where
  "to_number Undefined = NaN"
| "to_number Null = Fin 0"
| "to_number (Bool b) = (if b then Fin 1 else Fin 0)"
| "to_number (Num n) = n"
| "to_number (Str s) = string_to_number s"
| "to_number (Arr []) = Fin 0"
| "to_number (Arr [x]) = (case x of Undefined \<Rightarrow> Fin 0 | Null \<Rightarrow> Fin 0 | Bool b \<Rightarrow> NaN | _ \<Rightarrow> to_number x)"
| "to_number (Arr (x # y # ys)) = NaN"
| "to_number (Obj kvs) = NaN"
| "to_number (Fun f) = NaN"

text \<open>\<open>ToString\<close> of the primitive values that are not numbers.\<close>

fun prim_to_string :: "jsval \<Rightarrow> string" where
  "prim_to_string Undefined = ''undefined''"
| "prim_to_string Null = ''null''"
| "prim_to_string (Bool b) = (if b then ''true'' else ''false'')"
| "prim_to_string (Str s) = s"
| "prim_to_string v = []"

section \<open>The filing engine: confidence\<close>

text \<open>
  \<open>parseConfidence\<close> (filer.js). A number is returned as it is. Otherwise
  \<open>(confidence || '').toLowerCase()\<close> is computed: on a truthy value that is not a string
  (\<open>true\<close>, an array, an object) there is no method \<open>toLowerCase\<close> and a \<open>TypeError\<close> is
  thrown.
\<close>

definition parseConfidence :: "jsval \<Rightarrow> error + jsnum" where
  "parseConfidence confidence =
     (case confidence of
        Num n \<Rightarrow> Inr n
      | _ \<Rightarrow>
          let operand = (if js_truthy confidence then confidence else Str [])
          in (case operand of
                Str s \<Rightarrow>
                  let level = toLowerCase s
                  in if level = ''high'' then Inr (Fin (9 / 10))
                     else if level = ''medium'' then Inr (Fin (6 / 10))
                     else if level = ''low'' then Inr (Fin (3 / 10))
                     else
                       let parsed = parseFloat (prim_to_string confidence)
                       in Inr (if parsed = NaN then Fin (5 / 10) else parsed)
              | _ \<Rightarrow> Inl (TypeError ''toLowerCase is not a function'')))"

definition in_unit_interval :: "jsnum \<Rightarrow> bool" where
  "in_unit_interval n = (case n of Fin q \<Rightarrow> 0 \<le> q \<and> q \<le> 1 | _ \<Rightarrow> False)"


section \<open>The learner: keyword extraction\<close>

text \<open>
  \<open>split_first p s\<close> cuts \<open>s\<close> at the first occurrence of the pattern \<open>p\<close> and returns what
  precedes and what follows it.
\<close>

fun split_first :: "string \<Rightarrow> string \<Rightarrow> (string \<times> string) option" where
  "split_first p [] = (if p = [] then Some ([], []) else None)"
| "split_first p (c # cs) =
     (if prefix p (c # cs) then Some ([], drop (length p) (c # cs))
      else (case split_first p cs of
              None \<Rightarrow> None
            | Some (pre, post) \<Rightarrow> Some (c # pre, post)))"

text \<open>
  \<open>content.replace(/---[\s\S]*?---/, '')\<close>: the first \<open>---\<close> that is followed by another
  \<open>---\<close> is removed together with the shortest stretch up to and including that second
  \<open>---\<close>; without such a pair the string is unchanged.
\<close>

definition strip_frontmatter :: "string \<Rightarrow> string" where
  "strip_frontmatter s =
     (case split_first ''---'' s of
        None \<Rightarrow> s
      | Some (pre, rest) \<Rightarrow>
          (case split_first ''---'' rest of
             None \<Rightarrow> s
           | Some (mid, post) \<Rightarrow> pre @ post))"

definition is_markdown_symbol :: "char \<Rightarrow> bool" where
  "is_markdown_symbol c = (c \<in> set ''#*`[]()'')"

definition strip_markdown :: "string \<Rightarrow> string" where
  "strip_markdown s = map (\<lambda>c. if is_markdown_symbol c then CHR '' '' else c) s"

text \<open>
  \<open>s.split(/\s+/)\<close>: the pieces between the runs of white space; a string that starts or
  ends with white space yields an empty first or last piece.
\<close>

fun split_ws :: "string \<Rightarrow> string list" where
  "split_ws [] = [[]]"
| "split_ws (c # cs) =
     (if is_space c then
        (if cs \<noteq> [] \<and> is_space (hd cs) then split_ws cs else [] # split_ws cs)
      else (case split_ws cs of
              [] \<Rightarrow> [[c]]
            | w # ws \<Rightarrow> (c # w) # ws))"

definition stopWords :: "string list" where
  "stopWords =
     [''this'', ''that'', ''with'', ''from'', ''have'', ''will'', ''been'',
      ''were'', ''their'', ''what'', ''which'', ''when'', ''where'', ''there'',
      ''about'', ''would'', ''could'', ''should'', ''these'', ''those'']"

definition isStopWord :: "string \<Rightarrow> bool" where
  "isStopWord word = (word \<in> set stopWords)"

text \<open>The words that are counted: cleaned, lower-cased, longer than three code units and
  not stop words.\<close>

definition keyword_tokens :: "string \<Rightarrow> string list" where
  "keyword_tokens content =
     (let cleaned = toLowerCase (strip_markdown (strip_frontmatter content))
      in filter (\<lambda>w. \<not> isStopWord w) (filter (\<lambda>w. length w > 3) (split_ws cleaned)))"

text \<open>
  The frequency table is the object literal \<open>{}\<close>, which inherits from \<open>Object.prototype\<close>.
  Reading a property that the table does not own finds the inherited one; of the names of
  \<open>Object.prototype\<close>, \<open>constructor\<close> and \<open>__proto__\<close> are in lower case and can be a
  word. Writing \<open>__proto__\<close> calls the inherited setter, which ignores a value that is not
  an object, so that no own property is created.
\<close>

definition object_prototype :: "(string \<times> jsval) list" where
  "object_prototype =
     [(''constructor'', Fun ''Object''),
      (''__defineGetter__'', Fun ''__defineGetter__''),
      (''__defineSetter__'', Fun ''__defineSetter__''),
      (''hasOwnProperty'', Fun ''hasOwnProperty''),
      (''__lookupGetter__'', Fun ''__lookupGetter__''),
      (''__lookupSetter__'', Fun ''__lookupSetter__''),
      (''isPrototypeOf'', Fun ''isPrototypeOf''),
      (''propertyIsEnumerable'', Fun ''propertyIsEnumerable''),
      (''toString'', Fun ''toString''),
      (''valueOf'', Fun ''valueOf''),
      (''__proto__'', Obj []),
      (''toLocaleString'', Fun ''toLocaleString'')]"

definition prop_get :: "(string \<times> jsval) list \<Rightarrow> string \<Rightarrow> jsval" where
  "prop_get obj k =
     (case map_of obj k of
        Some v \<Rightarrow> v
      | None \<Rightarrow> (case map_of object_prototype k of Some v \<Rightarrow> v | None \<Rightarrow> Undefined))"

fun alist_update :: "string \<Rightarrow> 'a \<Rightarrow> (string \<times> 'a) list \<Rightarrow> (string \<times> 'a) list" where
  "alist_update k v [] = [(k, v)]"
| "alist_update k v (p # ps) = (if fst p = k then (k, v) # ps else p # alist_update k v ps)"

definition prop_set_primitive :: "(string \<times> jsval) list \<Rightarrow> string \<Rightarrow> jsval \<Rightarrow> (string \<times> jsval) list" where
  "prop_set_primitive obj k v = (if k = ''__proto__'' then obj else alist_update k v obj)"

text \<open>\<open>(x || 0) + 1\<close>: a truthy number is incremented, a falsy value counts as 0, and any
  other truthy value is converted to a string to which \<open>1\<close> is appended.\<close>

fun or_zero_plus_one :: "jsval \<Rightarrow> jsval" where
  "or_zero_plus_one (Num (Fin q)) = Num (Fin (q + 1))"
| "or_zero_plus_one (Num NaN) = Num (Fin 1)"
| "or_zero_plus_one (Num n) = Num n"
| "or_zero_plus_one (Str s) = (if s = [] then Num (Fin 1) else Str (s @ ''1''))"
| "or_zero_plus_one (Bool b) = (if b then Num (Fin 2) else Num (Fin 1))"
| "or_zero_plus_one (Fun f) = Str (''function '' @ f @ ''() { [native code] }1'')"
| "or_zero_plus_one (Obj kvs) = Str ''[object Object]1''"
| "or_zero_plus_one (Arr xs) = Str ''1''"
| "or_zero_plus_one Undefined = Num (Fin 1)"
| "or_zero_plus_one Null = Num (Fin 1)"

definition count_word :: "(string \<times> jsval) list \<Rightarrow> string \<Rightarrow> (string \<times> jsval) list" where
  "count_word freq word = prop_set_primitive freq word (or_zero_plus_one (prop_get freq word))"

text \<open>
  \<open>Object.entries\<close> lists the own properties whose names are array indices (canonical
  decimal numerals up to \<open>2^32 - 2\<close>) first, in ascending numeric order, and then the other
  properties in the order of their creation.
\<close>

definition is_array_index :: "string \<Rightarrow> bool" where
  "is_array_index k =
     (k \<noteq> [] \<and> list_all is_digit k \<and> (k = ''0'' \<or> hd k \<noteq> CHR ''0'')
      \<and> digits_val k \<le> 4294967294)"

definition object_entries :: "(string \<times> 'a) list \<Rightarrow> (string \<times> 'a) list" where
  "object_entries obj =
     sort_key (\<lambda>p. digits_val (fst p)) (filter (\<lambda>p. is_array_index (fst p)) obj)
     @ filter (\<lambda>p. \<not> is_array_index (fst p)) obj"

text \<open>
  \<open>Array.prototype.sort\<close> with a comparison function is stable; a comparison result that
  is \<open>NaN\<close> counts as 0. It is modelled by stable insertion from the left; for a
  consistent comparison function every stable sort gives the same array.
\<close>

fun sort_insert :: "('a \<Rightarrow> 'a \<Rightarrow> int) \<Rightarrow> 'a \<Rightarrow> 'a list \<Rightarrow> 'a list" where
  "sort_insert cmp x [] = [x]"
| "sort_insert cmp x (y # ys) = (if cmp x y < 0 then x # y # ys else y # sort_insert cmp x ys)"

definition js_sort :: "('a \<Rightarrow> 'a \<Rightarrow> int) \<Rightarrow> 'a list \<Rightarrow> 'a list" where
  "js_sort cmp xs = foldl (\<lambda>acc x. sort_insert cmp x acc) [] xs"

text \<open>\<open>ToNumber\<close> of a table entry: a string left by the inherited \<open>constructor\<close> is not
  a numeral and converts to \<open>NaN\<close>.\<close>

fun entry_number :: "jsval \<Rightarrow> jsnum" where
  "entry_number (Num n) = n"
| "entry_number v = NaN"

text \<open>The sign of \<open>b[1] - a[1]\<close>, with \<open>NaN\<close> as 0.\<close>

definition by_frequency :: "(string \<times> jsval) \<Rightarrow> (string \<times> jsval) \<Rightarrow> int" where
  "by_frequency a b =
     (case (entry_number (snd b), entry_number (snd a)) of
        (Fin y, Fin x) \<Rightarrow> (if y < x then - 1 else if x < y then 1 else 0)
      | (PInf, Fin x) \<Rightarrow> 1
      | (NInf, Fin x) \<Rightarrow> - 1
      | (Fin y, PInf) \<Rightarrow> - 1
      | (Fin y, NInf) \<Rightarrow> 1
      | (PInf, NInf) \<Rightarrow> 1
      | (NInf, PInf) \<Rightarrow> - 1
      | _ \<Rightarrow> 0)"

definition extractKeywords :: "string \<Rightarrow> string list" where
  "extractKeywords content =
     (let words = keyword_tokens content;
          freq = foldl count_word [] words;
          sorted = map fst (js_sort by_frequency (object_entries freq))
      in take 20 sorted)"


section \<open>Paths\<close>

text \<open>
  The functions \<open>basename\<close>, \<open>join\<close> and \<open>parse\<close> of Node's POSIX \<open>path\<close> module, on which
  the filer computes every target path.
\<close>

definition slash :: char where
  "slash = CHR ''/''"

definition strip_trailing_slashes :: "string \<Rightarrow> string" where
  "strip_trailing_slashes p = rev (dropWhile (\<lambda>c. c = slash) (rev p))"

definition last_segment :: "string \<Rightarrow> string" where
  "last_segment p = rev (takeWhile (\<lambda>c. c \<noteq> slash) (rev p))"

text \<open>\<open>path.basename(p)\<close>: what follows the last slash, trailing slashes apart.\<close>

definition basename :: "string \<Rightarrow> string" where
  "basename p = last_segment (strip_trailing_slashes p)"

fun split_char :: "char \<Rightarrow> string \<Rightarrow> string list" where
  "split_char d [] = [[]]"
| "split_char d (c # cs) =
     (if c = d then [] # split_char d cs
      else (case split_char d cs of
              [] \<Rightarrow> [[c]]
            | w # ws \<Rightarrow> (c # w) # ws))"

fun join_with :: "string \<Rightarrow> string list \<Rightarrow> string" where
  "join_with sep [] = []"
| "join_with sep [x] = x"
| "join_with sep (x # y # ys) = x @ sep @ join_with sep (y # ys)"

text \<open>
  \<open>normalizeString\<close>: empty segments and \<open>.\<close> are dropped; \<open>..\<close> removes the segment before
  it, unless there is none or it is \<open>..\<close> itself, in which case \<open>..\<close> is kept on a relative
  path and dropped on an absolute one.
\<close>

definition normalize_step :: "bool \<Rightarrow> string list \<Rightarrow> string \<Rightarrow> string list" where
  "normalize_step allowAboveRoot res seg =
     (if seg = [] \<or> seg = ''.'' then res
      else if seg = ''..'' then
        (if res \<noteq> [] \<and> last res \<noteq> ''..'' then butlast res
         else if allowAboveRoot then res @ [''..'']
         else res)
      else res @ [seg])"

definition normalizeString :: "string \<Rightarrow> bool \<Rightarrow> string" where
  "normalizeString p allowAboveRoot =
     join_with ''/'' (foldl (normalize_step allowAboveRoot) [] (split_char slash p))"

definition normalize :: "string \<Rightarrow> string" where
  "normalize p =
     (if p = [] then ''.''
      else
        let isAbsolute = (hd p = slash);
            trailingSeparator = (last p = slash);
            q = normalizeString p (\<not> isAbsolute)
        in if q = [] then (if isAbsolute then ''/'' else if trailingSeparator then ''./'' else ''.'')
           else (if isAbsolute then ''/'' else []) @ q @ (if trailingSeparator then ''/'' else []))"

text \<open>\<open>path.join(a, b)\<close> throws a \<open>TypeError\<close> unless both arguments are strings.\<close>

definition path_join_strings :: "string \<Rightarrow> string \<Rightarrow> string" where
  "path_join_strings a b =
     (let parts = filter (\<lambda>x. x \<noteq> []) [a, b]
      in if parts = [] then ''.'' else normalize (join_with ''/'' parts))"

definition path_join :: "jsval \<Rightarrow> jsval \<Rightarrow> error + string" where
  "path_join a b =
     (case (a, b) of
        (Str x, Str y) \<Rightarrow> Inr (path_join_strings x y)
      | _ \<Rightarrow> Inl (TypeError ''The path argument must be of type string''))"

record parsed_path =
  root :: string
  dir :: string
  base :: string
  ext :: string
  name :: string

text \<open>
  \<open>path.parse(p)\<close>. The base is the last segment, trailing slashes apart; the extension
  starts at the last dot of the base, unless the base has no dot, starts with its only
  candidate dot, or is \<open>..\<close> (which Node recognises only when the base does not directly
  follow the root slash of an absolute path).
\<close>

definition last_dot :: "string \<Rightarrow> nat option" where
  "last_dot b =
     (if CHR ''.'' \<in> set b then Some (length b - 1 - length (takeWhile (\<lambda>c. c \<noteq> CHR ''.'') (rev b)))
      else None)"

definition path_parse :: "string \<Rightarrow> parsed_path" where
  "path_parse p =
     (if p = [] then \<lparr>root = [], dir = [], base = [], ext = [], name = []\<rparr>
      else
        let isAbsolute = (hd p = slash);
            rt = (if isAbsolute then ''/'' else []);
            t = strip_trailing_slashes (if isAbsolute then tl p else p);
            b = last_segment t;
            startPartZero = (slash \<notin> set t);
            d = (if startPartZero then rt else take (length rt + length t - length b - 1) p);
            noExt = (case last_dot b of
                       None \<Rightarrow> True
                     | Some i \<Rightarrow> i = 0 \<or> (b = ''..'' \<and> \<not> (isAbsolute \<and> startPartZero)))
        in if t = [] then \<lparr>root = rt, dir = rt, base = [], ext = [], name = []\<rparr>
           else if noExt then \<lparr>root = rt, dir = d, base = b, ext = [], name = b\<rparr>
           else \<lparr>root = rt, dir = d, base = b,
                 ext = drop (the (last_dot b)) b, name = take (the (last_dot b)) b\<rparr>)"

text \<open>Decimal numerals, as template literals print a small non-negative integer.\<close>

fun nat_to_string :: "nat \<Rightarrow> string" where
  "nat_to_string n =
     (if n < 10 then [char_of (48 + n)]
      else nat_to_string (n div 10) @ [char_of (48 + n mod 10)])"


section \<open>The document store\<close>

text \<open>
  \<open>VaultClient\<close> (vault-client.js) keeps one CouchDB document per note, under the identifier
  computed from the note's path. The model keeps, for each document, its path, the text
  that its chunks spell, the tombstone flag \<open>deleted\<close> and the encryption marker \<open>e_\<close>.
  Chunk documents are not modelled: the text of a note is stored and read back as a whole.
  Revisions, times and sizes are left out; no modelled function reads them.
\<close>

record doc =
  doc_path :: string
  doc_content :: string
  doc_deleted :: bool
  doc_encrypted :: bool

type_synonym database = "(string \<times> doc) list"

text \<open>
  The surroundings of a call, fixed while it runs: the configured inbox path, the requests
  that the database refuses (by kind and document identifier), the message that the
  database client gives to a not-found error, the front-matter codec, the clock and the
  random source. The codec is the external collaborator of the specification's section 6:
  \<open>parseFrontmatter\<close> may throw, \<open>buildNote\<close> returns the text of a note.
\<close>

record env =
  inboxPath :: string
  get_fails :: "string \<Rightarrow> bool"
  insert_fails :: "string \<Rightarrow> bool"
  list_fails :: bool
  notFoundMessage :: string
  parseFrontmatter :: "string \<Rightarrow> error + ((string \<times> jsval) list \<times> string)"
  buildNote :: "(string \<times> jsval) list \<Rightarrow> string \<Rightarrow> string"
  now :: nat
  toISOString :: "nat \<Rightarrow> string"
  randomHex :: string

text \<open>\<open>sanitizeUnicode\<close>: on the modelled code units the replacements of symbols and
  emojis find nothing, and the last step removes every code unit above \<open>0x7F\<close>.\<close>

definition sanitizeUnicode :: "string \<Rightarrow> string" where
  "sanitizeUnicode text = filter (\<lambda>c. code_unit c \<le> 127) text"

definition pathToId :: "string \<Rightarrow> string" where
  "pathToId p = (let i = toLowerCase p in if startsWith i ''_'' then ''/'' @ i else i)"

definition db_get :: "env \<Rightarrow> database \<Rightarrow> string \<Rightarrow> error + doc" where
  "db_get e d i =
     (if get_fails e i then Inl (HttpError 500 ''request failed'')
      else (case map_of d i of
              None \<Rightarrow> Inl (HttpError 404 (notFoundMessage e))
            | Some x \<Rightarrow> Inr x))"

definition db_insert :: "env \<Rightarrow> database \<Rightarrow> string \<Rightarrow> doc \<Rightarrow> error + database" where
  "db_insert e d i x =
     (if insert_fails e i then Inl (HttpError 500 ''request failed'')
      else Inr (alist_update i x d))"

record note_file =
  nf_path :: string
  nf_content :: string

definition readNote :: "env \<Rightarrow> database \<Rightarrow> string \<Rightarrow> error + note_file option" where
  "readNote e d p =
     (case db_get e d (pathToId p) of
        Inl err \<Rightarrow> (if statusCode err = Some 404 then Inr None else Inl err)
      | Inr metadata \<Rightarrow>
          if doc_encrypted metadata then Inl (Error ''Note is encrypted - E2EE must be disabled'')
          else Inr (Some \<lparr>nf_path = doc_path metadata, nf_content = doc_content metadata\<rparr>))"

definition writeNote :: "env \<Rightarrow> database \<Rightarrow> string \<Rightarrow> string \<Rightarrow> error + database" where
  "writeNote e d p content =
     (let safeContent = sanitizeUnicode content;
          docId = pathToId p
      in (case db_get e d docId of
            Inl err \<Rightarrow>
              if statusCode err \<noteq> Some 404 then Inl err
              else db_insert e d docId
                     \<lparr>doc_path = p, doc_content = safeContent, doc_deleted = False, doc_encrypted = False\<rparr>
          | Inr existingDoc \<Rightarrow>
              db_insert e d docId
                \<lparr>doc_path = p, doc_content = safeContent, doc_deleted = False, doc_encrypted = False\<rparr>))"

text \<open>\<open>deleteNote\<close> is a soft delete: the document stays, flagged and without text.\<close>

definition deleteNote :: "env \<Rightarrow> database \<Rightarrow> string \<Rightarrow> error + database" where
  "deleteNote e d p =
     (let docId = pathToId p
      in (case db_get e d docId of
            Inl err \<Rightarrow> Inl err
          | Inr x \<Rightarrow> db_insert e d docId (x\<lparr>doc_deleted := True, doc_content := []\<rparr>)))"

definition listNotes :: "env \<Rightarrow> database \<Rightarrow> error + string list" where
  "listNotes e d =
     (if list_fails e then Inl (HttpError 500 ''request failed'')
      else Inr (map (\<lambda>row. doc_path (snd row))
                  (filter (\<lambda>row. fst row \<noteq> ''obsydian_livesync_version'')
                     (filter (\<lambda>row. \<not> startsWith (fst row) ''h:'' \<and> \<not> startsWith (fst row) ''_'') d))))"

section \<open>The learner: folder hints\<close>

record folder_pattern =
  fp_count :: rat
  fp_keywords :: "(string \<times> rat) list"

text \<open>
  The score of a folder: the frequencies of the keywords that its pattern knows, summed.
  A keyword that the pattern does not own but \<open>Object.prototype\<close> has makes the sum a
  string, and the score \<open>NaN\<close>; \<open>None\<close> stands for that.
\<close>

definition add_keyword :: "(string \<times> rat) list \<Rightarrow> rat option \<Rightarrow> string \<Rightarrow> rat option" where
  "add_keyword kws score keyword =
     (case map_of kws keyword of
        Some q \<Rightarrow> (if q \<noteq> 0 then map_option (\<lambda>sc. sc + q) score else score)
      | None \<Rightarrow> (if map_of object_prototype keyword \<noteq> None then None else score))"

definition folder_score :: "folder_pattern \<Rightarrow> string list \<Rightarrow> jsnum" where
  "folder_score pattern keywords =
     (case foldl (add_keyword (fp_keywords pattern)) (Some 0) keywords of
        None \<Rightarrow> NaN
      | Some sc \<Rightarrow> Fin (sc / (if fp_count pattern = 0 then 1 else fp_count pattern)))"

fun best_folder :: "(string \<times> jsnum) list \<Rightarrow> jsval \<Rightarrow> jsnum \<Rightarrow> jsval" where
  "best_folder [] bestFolder bestScore = bestFolder"
| "best_folder ((folder, score) # rest) bestFolder bestScore =
     (if js_lt bestScore score then best_folder rest (Str folder) score
      else best_folder rest bestFolder bestScore)"

text \<open>\<open>getFolderHints\<close> (learning.js), as far as the filer reads it: the suggested folder,
  \<open>null\<close> when nothing was learned or no folder scores above 0.\<close>

definition getFolderHints :: "(string \<times> folder_pattern) list \<Rightarrow> string \<Rightarrow> jsval" where
  "getFolderHints folderPatterns noteContent =
     (if folderPatterns = [] then Null
      else
        let keywords = extractKeywords noteContent;
            scores = foldl (\<lambda>acc fp. if fst fp = ''__proto__'' then acc
                                      else alist_update (fst fp) (folder_score (snd fp) keywords) acc)
                       [] (object_entries folderPatterns)
        in best_folder (object_entries scores) Null (Fin 0))"


section \<open>The operation ledger\<close>

record operation =
  op_action :: string
  originalPath :: string
  targetPath :: string
  timestamp :: nat
  originalContent :: string
  newContent :: string

record session =
  startTime :: nat
  operations :: "operation list"
  undone :: bool
  undoneAt :: "nat option"

text \<open>
  The state that the calls change: the database, the sessions of the history file and the
  folder patterns of the learning file (\<open>Inl\<close> when that file cannot be read). The history
  file is taken to be readable and writable; a missing file is the empty history.
\<close>

record world =
  db :: database
  history :: "(string \<times> session) list"
  learning :: "error + (string \<times> folder_pattern) list"

text \<open>\<open>saveHistory\<close>: beyond 100 sessions only the 100 with the latest start are kept.\<close>

definition by_startTime :: "(string \<times> session) \<Rightarrow> (string \<times> session) \<Rightarrow> int" where
  "by_startTime a b = int (startTime (snd b)) - int (startTime (snd a))"

definition saveHistory :: "(string \<times> session) list \<Rightarrow> (string \<times> session) list" where
  "saveHistory sessions =
     (if length sessions > 100 then take 100 (js_sort by_startTime (object_entries sessions))
      else sessions)"

text \<open>
  \<open>trackOperation\<close>. The filer does not await it, so an exception in it never reaches
  the filer: for a session identifier that the sessions object does not own but inherits
  (\<open>constructor\<close>, \<open>toString\<close>, ...) the inherited value has no list of operations, the
  call fails and the history stays as it is. The call is modelled as complete before the
  next store request.
\<close>

definition trackOperation :: "env \<Rightarrow> string \<Rightarrow> operation \<Rightarrow> (string \<times> session) list \<Rightarrow> (string \<times> session) list" where
  "trackOperation e sessionId operation sessions =
     (case map_of sessions sessionId of
        Some sess \<Rightarrow>
          saveHistory (alist_update sessionId (sess\<lparr>operations := operations sess @ [operation]\<rparr>) sessions)
      | None \<Rightarrow>
          if map_of object_prototype sessionId \<noteq> None then sessions
          else saveHistory (alist_update sessionId
                 \<lparr>startTime = now e, operations = [operation], undone = False, undoneAt = None\<rparr>
                 sessions))"

section \<open>The filing engine\<close>

record inbox_note =
  n_path :: string
  n_frontmatter :: "(string \<times> jsval) list"
  n_body :: string
  n_content :: string

record detail =
  d_path :: string
  d_action :: string
  d_targetPath :: "string option"
  d_tags :: "jsval option"
  d_confidence :: "jsval option"
  d_reason :: "string option"
  d_preview :: bool
  d_error :: "string option"

text \<open>Reading a property of a value that is not \<open>undefined\<close> or \<open>null\<close>; of the properties
  that the filer reads (\<open>confidence\<close>, \<open>folder\<close>, \<open>tags\<close>, \<open>related\<close>) only an object can
  have one.\<close>

fun get_prop :: "jsval \<Rightarrow> string \<Rightarrow> jsval" where
  "get_prop (Obj kvs) k = prop_get kvs k"
| "get_prop v k = Undefined"

text \<open>\<open>v.length > 0\<close> for a truthy \<open>v\<close>.\<close>

fun length_positive :: "jsval \<Rightarrow> bool" where
  "length_positive (Arr xs) = (xs \<noteq> [])"
| "length_positive (Str s) = (s \<noteq> [])"
| "length_positive (Obj kvs) = js_lt (Fin 0) (to_number (prop_get kvs ''length''))"
| "length_positive v = False"

definition endsWith :: "string \<Rightarrow> string \<Rightarrow> bool" where
  "endsWith s p = suffix p s"

text \<open>\<open>notePath.replace(/\.md$/, '')\<close> inside a wiki link.\<close>

definition backlink :: "string \<Rightarrow> string" where
  "backlink notePath =
     ''[['' @ (if endsWith notePath ''.md'' then take (length notePath - 3) notePath else notePath) @ '']]''"

fun backlinks :: "jsval list \<Rightarrow> error + string list" where
  "backlinks [] = Inr []"
| "backlinks (x # xs) =
     (case x of
        Str p \<Rightarrow> (case backlinks xs of Inl err \<Rightarrow> Inl err | Inr ls \<Rightarrow> Inr (backlink p # ls))
      | _ \<Rightarrow> Inl (TypeError ''notePath.replace is not a function''))"

definition newline :: char where
  "newline = char_of (10 :: nat)"

definition buildUpdatedNote :: "env \<Rightarrow> inbox_note \<Rightarrow> jsval \<Rightarrow> error + string" where
  "buildUpdatedNote e n suggestions =
     (let fm0 = object_entries (n_frontmatter n);
          tags = get_prop suggestions ''tags'';
          fm1 = (if js_truthy tags \<and> length_positive tags then alist_update ''tags'' tags fm0 else fm0);
          fm2 = alist_update ''filed_at'' (Str (toISOString e (now e))) fm1;
          fm3 = alist_update ''filed_by'' (Str ''vault-curator'') fm2;
          fm4 = filter (\<lambda>p. fst p \<noteq> ''ai_suggestions'') fm3;
          related = get_prop suggestions ''related''
      in if js_truthy related \<and> length_positive related then
           (case related of
              Arr xs \<Rightarrow>
                (case backlinks xs of
                   Inl err \<Rightarrow> Inl err
                 | Inr ls \<Rightarrow>
                     Inr (buildNote e fm4
                            (n_body n @ [newline, newline] @ ''## Related Notes'' @ [newline]
                             @ join_with '' '' ls)))
            | _ \<Rightarrow> Inl (TypeError ''suggestions.related.map is not a function''))
         else Inr (buildNote e fm4 (n_body n)))"

text \<open>
  \<open>resolveCollision\<close>. In a dry run one look at the target decides between the target and
  its \<open>-1\<close> variant. Otherwise the loop tries the target, then the suffixes \<open>-1\<close>, \<open>-2\<close>, ...
  and throws once the counter has passed 100.
\<close>

definition suffixed :: "string \<Rightarrow> nat \<Rightarrow> string" where
  "suffixed tp counter =
     (let parsed = path_parse tp
      in path_join_strings (dir parsed) (name parsed @ ''-'' @ nat_to_string counter @ ext parsed))"

function collision_loop :: "env \<Rightarrow> database \<Rightarrow> string \<Rightarrow> string \<Rightarrow> nat \<Rightarrow> error + string" where
  "collision_loop e d tp finalPath counter =
     (case readNote e d finalPath of
        Inl err \<Rightarrow> Inl err
      | Inr None \<Rightarrow> Inr finalPath
      | Inr (Some existing) \<Rightarrow>
          if counter + 1 > 100 then Inl (Error (''Too many collisions for '' @ tp))
          else collision_loop e d tp (suffixed tp counter) (counter + 1))"
  by pat_completeness auto
termination
  by (relation "measure (\<lambda>(e, d, tp, finalPath, counter). 101 - counter)") auto

definition resolveCollision :: "env \<Rightarrow> database \<Rightarrow> string \<Rightarrow> bool \<Rightarrow> error + string" where
  "resolveCollision e d tp dryRun =
     (if dryRun then
        (case readNote e d tp of
           Inl err \<Rightarrow> Inl err
         | Inr None \<Rightarrow> Inr tp
         | Inr (Some existing) \<Rightarrow> Inr (suffixed tp 1))
      else collision_loop e d tp tp 1)"

definition queued_detail :: "inbox_note \<Rightarrow> string \<Rightarrow> bool \<Rightarrow> detail" where
  "queued_detail n queuePath preview =
     \<lparr>d_path = n_path n, d_action = ''queued'', d_targetPath = Some queuePath, d_tags = None,
      d_confidence = (if preview then None
                      else Some (get_prop (prop_get (n_frontmatter n) ''ai_suggestions'') ''confidence'')),
      d_reason = Some ''Low confidence'', d_preview = preview, d_error = None\<rparr>"

definition queueForReview :: "env \<Rightarrow> inbox_note \<Rightarrow> bool \<Rightarrow> string \<Rightarrow> world \<Rightarrow> (error + detail) \<times> world" where
  "queueForReview e n dryRun sessionId w =
     (let queuePath = ''inbox/review-queue/'' @ basename (n_path n);
          fm1 = alist_update ''review_needed'' (Bool True) (object_entries (n_frontmatter n));
          fm2 = alist_update ''queued_at'' (Str (toISOString e (now e))) fm1;
          updatedContent = buildNote e fm2 (n_body n)
      in if dryRun then (Inr (queued_detail n queuePath True), w)
         else
           (case writeNote e (db w) queuePath updatedContent of
              Inl err \<Rightarrow> (Inl err, w)
            | Inr d1 \<Rightarrow>
                (case deleteNote e d1 (n_path n) of
                   Inl err \<Rightarrow> (Inl err, w\<lparr>db := d1\<rparr>)
                 | Inr d2 \<Rightarrow>
                     (Inr (queued_detail n queuePath False),
                      w\<lparr>db := d2,
                         history := trackOperation e sessionId
                           \<lparr>op_action = ''queue'', originalPath = n_path n, targetPath = queuePath,
                            timestamp = now e, originalContent = n_content n,
                            newContent = updatedContent\<rparr> (history w)\<rparr>))))"

text \<open>
  \<open>fileNote\<close>: the outcome for one note, and the state it leaves. An exception leaves the
  state as it was when it was thrown: a failed delete comes after a successful write.
\<close>

definition filed_detail :: "inbox_note \<Rightarrow> jsval \<Rightarrow> string \<Rightarrow> bool \<Rightarrow> detail" where
  "filed_detail n suggestions finalPath preview =
     \<lparr>d_path = n_path n, d_action = ''filed'', d_targetPath = Some finalPath,
      d_tags = Some (if js_truthy (get_prop suggestions ''tags'') then get_prop suggestions ''tags'' else Arr []),
      d_confidence = Some (get_prop suggestions ''confidence''),
      d_reason = None, d_preview = preview, d_error = None\<rparr>"

definition fileNote :: "env \<Rightarrow> inbox_note \<Rightarrow> jsnum \<Rightarrow> bool \<Rightarrow> string \<Rightarrow> world \<Rightarrow> (error + detail) \<times> world" where
  "fileNote e n minConfidence dryRun sessionId w =
     (let suggestions = prop_get (n_frontmatter n) ''ai_suggestions''
      in if suggestions = Undefined \<or> suggestions = Null
         then (Inl (TypeError ''Cannot read properties of undefined''), w)
         else
           (case parseConfidence (get_prop suggestions ''confidence'') of
              Inl err \<Rightarrow> (Inl err, w)
            | Inr confidence \<Rightarrow>
                if js_lt confidence minConfidence then queueForReview e n dryRun sessionId w
                else
                  (case learning w of
                     Inl err \<Rightarrow> (Inl err, w)
                   | Inr folderPatterns \<Rightarrow>
                       let hint = getFolderHints folderPatterns (n_body n);
                           targetFolder = (if js_truthy hint then hint else get_prop suggestions ''folder'');
                           fileName = basename (n_path n)
                       in (case path_join targetFolder (Str fileName) of
                             Inl err \<Rightarrow> (Inl err, w)
                           | Inr tp \<Rightarrow>
                               (case resolveCollision e (db w) tp dryRun of
                                  Inl err \<Rightarrow> (Inl err, w)
                                | Inr finalPath \<Rightarrow>
                                    (case buildUpdatedNote e n suggestions of
                                       Inl err \<Rightarrow> (Inl err, w)
                                     | Inr updatedNote \<Rightarrow>
                                         if dryRun then (Inr (filed_detail n suggestions finalPath True), w)
                                         else
                                           (case writeNote e (db w) finalPath updatedNote of
                                              Inl err \<Rightarrow> (Inl err, w)
                                            | Inr d1 \<Rightarrow>
                                                (case deleteNote e d1 (n_path n) of
                                                   Inl err \<Rightarrow> (Inl err, w\<lparr>db := d1\<rparr>)
                                                 | Inr d2 \<Rightarrow>
                                                     (Inr (filed_detail n suggestions finalPath False),
                                                      w\<lparr>db := d2,
                                                         history := trackOperation e sessionId
                                                           \<lparr>op_action = ''file'', originalPath = n_path n,
                                                            targetPath = finalPath, timestamp = now e,
                                                            originalContent = n_content n,
                                                            newContent = updatedNote\<rparr> (history w)\<rparr>)))))))))"

text \<open>\<open>getProcessedInboxNotes\<close>: the notes under the inbox path whose front matter has a
  truthy \<open>ai_suggestions\<close>, in the order of the listing.\<close>

fun read_processed :: "env \<Rightarrow> database \<Rightarrow> string list \<Rightarrow> error + inbox_note list" where
  "read_processed e d [] = Inr []"
| "read_processed e d (p # ps) =
     (case readNote e d p of
        Inl err \<Rightarrow> Inl err
      | Inr None \<Rightarrow> read_processed e d ps
      | Inr (Some nf) \<Rightarrow>
          (case parseFrontmatter e (nf_content nf) of
             Inl err \<Rightarrow> Inl err
           | Inr (fm, bd) \<Rightarrow>
               if js_truthy (prop_get fm ''ai_suggestions'') then
                 (case read_processed e d ps of
                    Inl err \<Rightarrow> Inl err
                  | Inr ns \<Rightarrow>
                      Inr (\<lparr>n_path = nf_path nf, n_frontmatter = fm, n_body = bd,
                            n_content = nf_content nf\<rparr> # ns))
               else read_processed e d ps))"

definition getProcessedInboxNotes :: "env \<Rightarrow> database \<Rightarrow> error + inbox_note list" where
  "getProcessedInboxNotes e d =
     (let inbox = (if inboxPath e \<noteq> [] then inboxPath e else ''inbox/'')
      in (case listNotes e d of
            Inl err \<Rightarrow> Inl err
          | Inr allNotes \<Rightarrow> read_processed e d (filter (\<lambda>p. startsWith p inbox) allNotes)))"

record options =
  opt_limit :: "jsnum option"
  opt_minConfidence :: "jsnum option"
  opt_dryRun :: "bool option"
  opt_sessionId :: "string option"

record batch_result =
  r_sessionId :: string
  r_processed :: nat
  r_filed :: nat
  r_queued :: nat
  r_skipped :: nat
  r_failed :: nat
  r_details :: "detail list"
  r_dryRun :: bool
  r_message :: "string option"

text \<open>\<open>x || d\<close> for an optional number: absent, \<open>0\<close> and \<open>NaN\<close> give the default.\<close>

definition or_default :: "jsnum option \<Rightarrow> jsnum \<Rightarrow> jsnum" where
  "or_default x d = (case x of None \<Rightarrow> d | Some n \<Rightarrow> if js_truthy (Num n) then n else d)"

text \<open>\<open>xs.slice(0, limit)\<close>: the limit is truncated to an integer; a negative limit counts
  from the end.\<close>

definition slice_to :: "jsnum \<Rightarrow> 'a list \<Rightarrow> 'a list" where
  "slice_to limit xs =
     (case limit of
        Fin q \<Rightarrow>
          (let k = (if 0 \<le> q then \<lfloor>q\<rfloor> else \<lceil>q\<rceil>)
           in if k < 0 then take (nat (int (length xs) + k)) xs else take (nat k) xs)
      | PInf \<Rightarrow> xs
      | _ \<Rightarrow> [])"

definition generateSessionId :: "env \<Rightarrow> string" where
  "generateSessionId e = ''filer-'' @ nat_to_string (now e) @ ''-'' @ randomHex e"

definition count_result :: "detail \<Rightarrow> batch_result \<Rightarrow> batch_result" where
  "count_result result res =
     (if d_action result = ''filed'' then res\<lparr>r_filed := r_filed res + 1\<rparr>
      else if d_action result = ''queued'' then res\<lparr>r_queued := r_queued res + 1\<rparr>
      else if d_action result = ''skipped'' then res\<lparr>r_skipped := r_skipped res + 1\<rparr>
      else res)"

definition failed_detail :: "inbox_note \<Rightarrow> error \<Rightarrow> detail" where
  "failed_detail n err =
     \<lparr>d_path = n_path n, d_action = ''failed'', d_targetPath = None, d_tags = None,
      d_confidence = None, d_reason = None, d_preview = False, d_error = Some (message err)\<rparr>"

fun file_loop :: "env \<Rightarrow> jsnum \<Rightarrow> bool \<Rightarrow> string \<Rightarrow> inbox_note list \<Rightarrow> batch_result \<Rightarrow> world \<Rightarrow> batch_result \<times> world" where
  "file_loop e minConfidence dryRun sessionId [] res w = (res, w)"
| "file_loop e minConfidence dryRun sessionId (n # ns) res w =
     (let res1 = res\<lparr>r_processed := r_processed res + 1\<rparr>
      in (case fileNote e n minConfidence dryRun sessionId w of
            (Inr result, w1) \<Rightarrow>
              file_loop e minConfidence dryRun sessionId ns
                ((count_result result res1)\<lparr>r_details := r_details res1 @ [result]\<rparr>) w1
          | (Inl err, w1) \<Rightarrow>
              file_loop e minConfidence dryRun sessionId ns
                (res1\<lparr>r_failed := r_failed res1 + 1,
                      r_details := r_details res1 @ [failed_detail n err]\<rparr>) w1))"

definition fileNotes :: "env \<Rightarrow> options \<Rightarrow> world \<Rightarrow> (error + batch_result) \<times> world" where
  "fileNotes e opts w =
     (let limit = or_default (opt_limit opts) (Fin 10);
          minConfidence = or_default (opt_minConfidence opts) (Fin (7 / 10));
          dryRun = (case opt_dryRun opts of None \<Rightarrow> False | Some b \<Rightarrow> b);
          sessionId = (case opt_sessionId opts of
                         None \<Rightarrow> generateSessionId e
                       | Some i \<Rightarrow> if i \<noteq> [] then i else generateSessionId e);
          results = \<lparr>r_sessionId = sessionId, r_processed = 0, r_filed = 0, r_queued = 0,
                     r_skipped = 0, r_failed = 0, r_details = [], r_dryRun = dryRun,
                     r_message = None\<rparr>
      in (case getProcessedInboxNotes e (db w) of
            Inl err \<Rightarrow> (Inl (Error (''Filing failed: '' @ message err)), w)
          | Inr inboxNotes \<Rightarrow>
              if inboxNotes = [] then
                (Inr (results\<lparr>r_message := Some ''No processed notes found in inbox''\<rparr>), w)
              else
                (case file_loop e minConfidence dryRun sessionId (slice_to limit inboxNotes) results w of
                   (res, w1) \<Rightarrow> (Inr res, w1))))"

section \<open>Undo\<close>

record undo_detail =
  ud_action :: string
  ud_path :: string
  ud_status :: string
  ud_error :: "string option"

record undo_result =
  u_sessionId :: string
  u_undone :: nat
  u_failed :: nat
  u_details :: "undo_detail list"

definition str_includes :: "string \<Rightarrow> string \<Rightarrow> bool" where
  "str_includes s p = (split_first p s \<noteq> None)"

text \<open>\<open>undoOperation\<close>: the exception, if any, and the database it leaves.\<close>

definition undoOperation :: "env \<Rightarrow> operation \<Rightarrow> database \<Rightarrow> error option \<times> database" where
  "undoOperation e operation d =
     (if op_action operation = ''file'' \<or> op_action operation = ''queue'' then
        (case writeNote e d (originalPath operation) (originalContent operation) of
           Inl err \<Rightarrow> (Some err, d)
         | Inr d1 \<Rightarrow>
             (case deleteNote e d1 (targetPath operation) of
                Inl err \<Rightarrow> (if \<not> str_includes (message err) ''404'' then (Some err, d1) else (None, d1))
              | Inr d2 \<Rightarrow> (None, d2)))
      else (Some (Error (''Unknown operation type: '' @ op_action operation)), d))"

fun undo_loop :: "env \<Rightarrow> operation list \<Rightarrow> undo_result \<Rightarrow> database \<Rightarrow> undo_result \<times> database" where
  "undo_loop e [] res d = (res, d)"
| "undo_loop e (operation # rest) res d =
     (case undoOperation e operation d of
        (None, d1) \<Rightarrow>
          undo_loop e rest
            (res\<lparr>u_undone := u_undone res + 1,
                  u_details := u_details res @
                    [\<lparr>ud_action = op_action operation, ud_path = originalPath operation,
                      ud_status = ''undone'', ud_error = None\<rparr>]\<rparr>) d1
      | (Some err, d1) \<Rightarrow>
          undo_loop e rest
            (res\<lparr>u_failed := u_failed res + 1,
                  u_details := u_details res @
                    [\<lparr>ud_action = op_action operation, ud_path = originalPath operation,
                      ud_status = ''failed'', ud_error = Some (message err)\<rparr>]\<rparr>) d1)"

text \<open>
  \<open>undoLastFiling\<close>. A session identifier that the sessions object only inherits passes the
  not-found check, and spreading its missing list of operations throws a \<open>TypeError\<close>.
\<close>

definition undoLastFiling :: "env \<Rightarrow> string \<Rightarrow> world \<Rightarrow> (error + undo_result) \<times> world" where
  "undoLastFiling e sessionId w =
     (case map_of (history w) sessionId of
        None \<Rightarrow>
          if map_of object_prototype sessionId \<noteq> None
          then (Inl (TypeError ''session.operations is not iterable''), w)
          else (Inl (Error (''Session '' @ sessionId @ '' not found'')), w)
      | Some sess \<Rightarrow>
          (case undo_loop e (rev (operations sess))
                  \<lparr>u_sessionId = sessionId, u_undone = 0, u_failed = 0, u_details = []\<rparr> (db w) of
             (res, d1) \<Rightarrow>
               (Inr res,
                w\<lparr>db := d1,
                   history := saveHistory
                     (alist_update sessionId (sess\<lparr>undone := True, undoneAt := Some (now e)\<rparr>) (history w))\<rparr>)))"

text \<open>\<open>getRecentSessions\<close>: the sessions not yet undone, latest first.\<close>

definition getRecentSessions :: "nat \<Rightarrow> (string \<times> session) list \<Rightarrow> string list" where
  "getRecentSessions limit sessions =
     map fst (take limit (js_sort by_startTime (filter (\<lambda>p. \<not> undone (snd p)) (object_entries sessions))))"


section \<open>The front-matter codec\<close>

text \<open>
  \<open>parseFrontmatter\<close> and \<open>buildNote\<close> of vault-client.js, the codec that the running
  system passes for the two codec fields of the environment. The properties below hold for
  every codec; the examples run this one. A front-matter key \<open>__proto__\<close> with a scalar
  value creates no property; with a nested block or an array it replaces the prototype of
  the parsed object, which the model does not follow. Numbers are printed by their decimal
  expansion, as JavaScript prints a double of ordinary magnitude and precision.
\<close>

definition getIndentLevel :: "string \<Rightarrow> nat" where
  "getIndentLevel line = length (takeWhile is_space line)"

definition is_word_char :: "char \<Rightarrow> bool" where
  "is_word_char c =
     (let n = code_unit c in
      (48 \<le> n \<and> n \<le> 57) \<or> (65 \<le> n \<and> n \<le> 90) \<or> (97 \<le> n \<and> n \<le> 122) \<or> n = 95 \<or> n = 45)"

text \<open>The match of \<open>/^(\s*)([\w_-]+):\s*(.*)$/\<close>: the key and the value, if the line has
  that shape. The dot does not match a carriage return.\<close>

definition match_key_value :: "string \<Rightarrow> (string \<times> string) option" where
  "match_key_value line =
     (let r0 = dropWhile is_space line;
          k = takeWhile is_word_char r0;
          r1 = dropWhile is_word_char r0
      in if k = [] \<or> r1 = [] \<or> hd r1 \<noteq> CHR '':'' then None
         else
           let v = dropWhile is_space (tl r1)
           in if char_of (13 :: nat) \<in> set v then None else Some (k, v))"

definition slice_1_minus_1 :: "string \<Rightarrow> string" where
  "slice_1_minus_1 s = take (length s - 2) (drop 1 s)"

definition is_integer_literal :: "string \<Rightarrow> bool" where
  "is_integer_literal v =
     (let ds = (if v \<noteq> [] \<and> hd v = CHR ''-'' then tl v else v)
      in ds \<noteq> [] \<and> list_all is_digit ds)"

definition is_decimal_literal :: "string \<Rightarrow> bool" where
  "is_decimal_literal v =
     (let ds = (if v \<noteq> [] \<and> hd v = CHR ''-'' then tl v else v);
          ip = takeWhile is_digit ds;
          r = dropWhile is_digit ds
      in ip \<noteq> [] \<and> r \<noteq> [] \<and> hd r = CHR ''.'' \<and> tl r \<noteq> [] \<and> list_all is_digit (tl r))"

definition quoted_by :: "char \<Rightarrow> string \<Rightarrow> bool" where
  "quoted_by q s = (s \<noteq> [] \<and> hd s = q \<and> last s = q)"

definition double_quote :: char where
  "double_quote = char_of (34 :: nat)"

definition single_quote :: char where
  "single_quote = char_of (39 :: nat)"

definition parseArrayItem :: "string \<Rightarrow> jsval" where
  "parseArrayItem item0 =
     (let item = trim item0
      in if quoted_by double_quote item \<or> quoted_by single_quote item then Str (slice_1_minus_1 item)
         else Str item)"

text \<open>\<open>_parseYamlValue\<close>. Its last test names a variable \<open>item\<close> that does not exist
  there: a value that starts with a single quote (and is not wrapped in double quotes)
  throws a \<open>ReferenceError\<close>.\<close>

definition parseYamlValue :: "string \<Rightarrow> error + jsval" where
  "parseYamlValue value0 =
     (let v = trim value0
      in if v = [] then Inr (Str [])
         else if v = ''true'' then Inr (Bool True)
         else if v = ''false'' then Inr (Bool False)
         else if is_integer_literal v then
           Inr (Num (Fin (of_int (if hd v = CHR ''-'' then - digits_val (tl v) else digits_val v))))
         else if is_decimal_literal v then Inr (Num (parseFloat v))
         else if hd v = CHR ''['' \<and> last v = CHR '']'' then
           (let inner = slice_1_minus_1 v
            in if trim inner = [] then Inr (Arr [])
               else Inr (Arr (map parseArrayItem (split_char CHR '','' inner))))
         else if quoted_by double_quote v then Inr (Str (slice_1_minus_1 v))
         else if hd v = single_quote then Inl (Error ''item is not defined'')
         else Inr (Str v))"

text \<open>
  \<open>_parseYamlBlock\<close>: the loop over the lines from \<open>i\<close>, with the recursive call for a
  nested block. The first argument bounds the number of lines still to be looked at; the
  result is \<open>None\<close> if it is too small.
\<close>

fun parseYamlBlock :: "nat \<Rightarrow> string list \<Rightarrow> nat \<Rightarrow> nat \<Rightarrow> (string \<times> jsval) list
    \<Rightarrow> (error + ((string \<times> jsval) list \<times> nat)) option" where
  "parseYamlBlock 0 lines i baseIndent result = None"
| "parseYamlBlock (Suc fuel) lines i baseIndent result =
     (if \<not> i < length lines then Some (Inr (result, i))
      else
        let line = lines ! i
        in if getIndentLevel line < baseIndent \<and> trim line \<noteq> [] then Some (Inr (result, i))
           else if trim line = [] \<or> hd (trim line) = CHR ''#'' then
             parseYamlBlock fuel lines (i + 1) baseIndent result
           else
             (case match_key_value line of
                None \<Rightarrow> parseYamlBlock fuel lines (i + 1) baseIndent result
              | Some (key, v) \<Rightarrow>
                  let nested_start = (v = [] \<and> i + 1 < length lines \<and> lines ! (i + 1) \<noteq> []
                                       \<and> getIndentLevel (lines ! (i + 1)) > getIndentLevel line)
                  in if nested_start then
                       (case parseYamlBlock fuel lines (i + 1) (getIndentLevel (lines ! (i + 1))) [] of
                          None \<Rightarrow> None
                        | Some (Inl err) \<Rightarrow> Some (Inl err)
                        | Some (Inr (nested, j)) \<Rightarrow>
                            parseYamlBlock fuel lines j baseIndent
                              (if key = ''__proto__'' then result else alist_update key (Obj nested) result))
                     else
                       (case parseYamlValue v of
                          Inl err \<Rightarrow> Some (Inl err)
                        | Inr x \<Rightarrow>
                            parseYamlBlock fuel lines (i + 1) baseIndent
                              (if key = ''__proto__'' then result else alist_update key x result))))"

definition is_closing_delimiter :: "string \<Rightarrow> bool" where
  "is_closing_delimiter line = (take 3 line = ''---'' \<and> list_all is_space (drop 3 line))"

definition parseFrontmatter_impl :: "string \<Rightarrow> error + ((string \<times> jsval) list \<times> string)" where
  "parseFrontmatter_impl content =
     (let lines = split_char newline content
      in if hd lines \<noteq> ''---'' then Inr ([], content)
         else
           (case find (\<lambda>i. is_closing_delimiter (lines ! i)) [1..<length lines] of
              None \<Rightarrow> Inr ([], content)
            | Some endIndex \<Rightarrow>
                (case parseYamlBlock endIndex (take (endIndex - 1) (drop 1 lines)) 0 0 [] of
                   None \<Rightarrow> Inl (Error ''out of fuel'')
                 | Some (Inl err) \<Rightarrow> Inl err
                 | Some (Inr (frontmatter, j)) \<Rightarrow>
                     Inr (frontmatter, join_with [newline] (drop (endIndex + 1) lines)))))"

text \<open>Printing a number: the sign, the integer part and, for a fraction, up to twenty
  decimal places.\<close>

fun fraction_digits :: "nat \<Rightarrow> int \<Rightarrow> int \<Rightarrow> string" where
  "fraction_digits 0 r b = []"
| "fraction_digits (Suc k) r b =
     (if r = 0 then [] else nat_to_string (nat ((10 * r) div b)) @ fraction_digits k ((10 * r) mod b) b)"

definition number_to_string :: "jsnum \<Rightarrow> string" where
  "number_to_string x =
     (case x of
        NaN \<Rightarrow> ''NaN''
      | PInf \<Rightarrow> ''Infinity''
      | NInf \<Rightarrow> ''-Infinity''
      | Fin q \<Rightarrow>
          (let a = fst (quotient_of (abs q)); b = snd (quotient_of (abs q))
           in (if q < 0 then ''-'' else []) @ nat_to_string (nat (a div b))
              @ (if a mod b = 0 then [] else ''.'' @ fraction_digits 20 (a mod b) b)))"

fun to_string :: "jsval \<Rightarrow> string" where
  "to_string Undefined = ''undefined''"
| "to_string Null = ''null''"
| "to_string (Bool b) = (if b then ''true'' else ''false'')"
| "to_string (Num x) = number_to_string x"
| "to_string (Str s) = s"
| "to_string (Arr xs) =
     join_with '','' (map (\<lambda>x. if x = Undefined \<or> x = Null then [] else to_string x) xs)"
| "to_string (Obj kvs) = ''[object Object]''"
| "to_string (Fun f) = ''function '' @ f @ ''() { [native code] }''"

function (sequential) addYamlField :: "string \<Rightarrow> jsval \<Rightarrow> nat \<Rightarrow> string list" where
  "addYamlField key (Arr xs) indent =
     [concat (replicate indent ''  '') @ key @ '': [''
      @ join_with '', '' (map (\<lambda>x. if x = Undefined \<or> x = Null then [] else to_string x) xs) @ '']'']"
| "addYamlField key (Obj kvs) indent =
     (concat (replicate indent ''  '') @ key @ '':'')
     # concat (map (\<lambda>p. addYamlField (fst p) (snd p) (indent + 1)) (object_entries kvs))"
| "addYamlField key v indent = [concat (replicate indent ''  '') @ key @ '': '' @ to_string v]"
  by pat_completeness auto
termination
proof (relation "measure (\<lambda>(key, v, indent). size v)")
  show "wf (measure (\<lambda>(key, v, indent). size v))" by simp
next
  fix key :: string and kvs :: "(string \<times> jsval) list" and indent :: nat and p
  assume "p \<in> set (object_entries kvs)"
  then have "p \<in> set kvs" by (auto simp: object_entries_def)
  then have "size (snd p) < Suc (size_list (size_prod (\<lambda>x. 0) size) kvs)"
    by (induction kvs) (auto simp: less_Suc_eq_le)
  then show "((fst p, snd p, indent + 1), (key, Obj kvs, indent)) \<in> measure (\<lambda>(key, v, indent). size v)"
    by simp
qed

definition buildNote_impl :: "(string \<times> jsval) list \<Rightarrow> string \<Rightarrow> string" where
  "buildNote_impl frontmatter bd =
     (if frontmatter = [] then bd
      else join_with [newline]
             ([''---''] @ concat (map (\<lambda>p. addYamlField (fst p) (snd p) 0) (object_entries frontmatter))
              @ [''---''])
           @ [newline] @ bd)"

section \<open>Notions used in the statements\<close>

text \<open>The path of the review queue for a note, the suggestion that a note carries, and
  what it means for a note to be below the confidence threshold.\<close>

definition queue_path :: "inbox_note \<Rightarrow> string" where
  "queue_path n = ''inbox/review-queue/'' @ basename (n_path n)"

definition suggestions_of :: "inbox_note \<Rightarrow> jsval" where
  "suggestions_of n = prop_get (n_frontmatter n) ''ai_suggestions''"

definition low_confidence :: "inbox_note \<Rightarrow> jsnum \<Rightarrow> bool" where
  "low_confidence n minConfidence =
     (case parseConfidence (get_prop (suggestions_of n) ''confidence'') of
        Inl err \<Rightarrow> False
      | Inr c \<Rightarrow> js_lt c minConfidence)"



definition wf_db :: "database \<Rightarrow> bool" where
  "wf_db d = (distinct (map fst d) \<and> list_all (\<lambda>row. fst row = pathToId (doc_path (snd row))) d)"



definition consistent_ids :: "database \<Rightarrow> bool" where
  "consistent_ids d = (\<forall>k x. map_of d k = Some x \<longrightarrow> k = pathToId (doc_path x))"

definition session_id_of :: "env \<Rightarrow> options \<Rightarrow> string" where
  "session_id_of e opts =
     (case opt_sessionId opts of
        None \<Rightarrow> generateSessionId e
      | Some i \<Rightarrow> if i \<noteq> [] then i else generateSessionId e)"

definition dry_run_of :: "options \<Rightarrow> bool" where
  "dry_run_of opts = (case opt_dryRun opts of None \<Rightarrow> False | Some b \<Rightarrow> b)"

definition threshold_of :: "options \<Rightarrow> jsnum" where
  "threshold_of opts = or_default (opt_minConfidence opts) (Fin (7 / 10))"

definition limit_of :: "options \<Rightarrow> jsnum" where
  "limit_of opts = or_default (opt_limit opts) (Fin 10)"

definition empty_result :: "env \<Rightarrow> options \<Rightarrow> batch_result" where
  "empty_result e opts =
     \<lparr>r_sessionId = session_id_of e opts, r_processed = 0, r_filed = 0, r_queued = 0,
      r_skipped = 0, r_failed = 0, r_details = [], r_dryRun = dry_run_of opts, r_message = None\<rparr>"

definition is_ascii :: "string \<Rightarrow> bool" where
  "is_ascii s = list_all (\<lambda>c. code_unit c \<le> 127) s"

fun outcomes :: "env \<Rightarrow> jsnum \<Rightarrow> bool \<Rightarrow> string \<Rightarrow> inbox_note list \<Rightarrow> world \<Rightarrow> (error + detail) list" where
  "outcomes e mc dry sid [] w = []"
| "outcomes e mc dry sid (n # ns) w =
     fst (fileNote e n mc dry sid w) # outcomes e mc dry sid ns (snd (fileNote e n mc dry sid w))"

definition detail_of :: "inbox_note \<Rightarrow> error + detail \<Rightarrow> detail" where
  "detail_of n r = (case r of Inl err \<Rightarrow> failed_detail n err | Inr det \<Rightarrow> det)"

definition threw :: "error + detail \<Rightarrow> bool" where
  "threw r = (case r of Inl err \<Rightarrow> True | Inr det \<Rightarrow> False)"

fun first_free :: "env \<Rightarrow> database \<Rightarrow> string \<Rightarrow> string list \<Rightarrow> error + string" where
  "first_free e d tp [] = Inl (Error (''Too many collisions for '' @ tp))"
| "first_free e d tp (p # ps) =
     (case readNote e d p of
        Inl err \<Rightarrow> Inl err
      | Inr None \<Rightarrow> Inr p
      | Inr (Some existing) \<Rightarrow> first_free e d tp ps)"

definition candidates :: "string \<Rightarrow> string list" where
  "candidates tp = tp # map (suffixed tp) [1..<100]"

definition target_of :: "world \<Rightarrow> inbox_note \<Rightarrow> error + string" where
  "target_of w n =
     (case learning w of
        Inl err \<Rightarrow> Inl err
      | Inr folderPatterns \<Rightarrow>
          (let hint = getFolderHints folderPatterns (n_body n);
               targetFolder = (if js_truthy hint then hint else get_prop (suggestions_of n) ''folder'')
           in path_join targetFolder (Str (basename (n_path n)))))"

definition confident :: "inbox_note \<Rightarrow> jsnum \<Rightarrow> bool" where
  "confident n minConfidence =
     (suggestions_of n \<noteq> Undefined \<and> suggestions_of n \<noteq> Null \<and>
      (case parseConfidence (get_prop (suggestions_of n) ''confidence'') of
         Inl err \<Rightarrow> False
       | Inr c \<Rightarrow> \<not> js_lt c minConfidence))"

section \<open>Example states\<close>

text \<open>An environment in which every request succeeds, with the codec of the running
  system, and the states used in the examples.\<close>

definition example_env :: env where
  "example_env =
     \<lparr>inboxPath = ''inbox/'', get_fails = (\<lambda>i. False), insert_fails = (\<lambda>i. False),
      list_fails = False, notFoundMessage = ''missing'',
      parseFrontmatter = parseFrontmatter_impl, buildNote = buildNote_impl,
      now = 1000, toISOString = (\<lambda>t. ''2026-02-10T09:28:26.780Z''), randomHex = ''deadbeef''\<rparr>"

definition default_options :: options where
  "default_options = \<lparr>opt_limit = None, opt_minConfidence = None, opt_dryRun = None, opt_sessionId = None\<rparr>"



definition note_text :: "string \<Rightarrow> string \<Rightarrow> string \<Rightarrow> string" where
  "note_text folder confidence body =
     ''---\<newline>ai_suggestions:\<newline>  folder: '' @ folder @ ''\<newline>  confidence: '' @ confidence
     @ ''\<newline>---\<newline>'' @ body"

definition plain_doc :: "string \<Rightarrow> string \<Rightarrow> string \<times> doc" where
  "plain_doc p c = (pathToId p, \<lparr>doc_path = p, doc_content = c, doc_deleted = False, doc_encrypted = False\<rparr>)"

definition session_options :: options where
  "session_options = default_options\<lparr>opt_sessionId := Some ''s1''\<rparr>"

definition preview_options :: options where
  "preview_options = default_options\<lparr>opt_dryRun := Some True\<rparr>"

definition inbox_world :: world where
  "inbox_world =
     \<lparr>db = [plain_doc ''inbox/a.md'' (note_text ''projects'' ''high'' ''first''),
            plain_doc ''inbox/bad.md'' (note_text ''projects'' ''true'' ''second''),
            plain_doc ''inbox/low.md'' (note_text ''projects'' ''low'' ''third''),
            plain_doc ''inbox/sub/a.md'' (note_text ''projects'' ''high'' ''fourth'')],
      history = [], learning = Inr []\<rparr>"

definition crowded_world :: world where
  "crowded_world =
     \<lparr>db = plain_doc ''inbox/a.md'' (note_text ''projects'' ''high'' ''first'')
            # map (\<lambda>p. plain_doc p ''taken'') (candidates ''projects/a.md''),
      history = [], learning = Inr []\<rparr>"


definition the_notes :: "error + inbox_note list \<Rightarrow> inbox_note list" where
  "the_notes r = (case r of Inl err \<Rightarrow> [] | Inr ns \<Rightarrow> ns)"

definition inbox_notes :: "inbox_note list" where
  "inbox_notes = the_notes (getProcessedInboxNotes example_env (db inbox_world))"

definition user_writes :: "string \<Rightarrow> string \<Rightarrow> world \<Rightarrow> world" where
  "user_writes p c w = (case writeNote example_env (db w) p c of Inl err \<Rightarrow> w | Inr d \<Rightarrow> w\<lparr>db := d\<rparr>)"

definition single_world :: world where
  "single_world =
     \<lparr>db = [plain_doc ''inbox/a.md'' (note_text ''projects'' ''high'' ''first'')],
      history = [], learning = Inr []\<rparr>"

definition undone_world :: world where
  "undone_world =
     snd (undoLastFiling example_env ''s1'' (snd (fileNotes example_env session_options single_world)))"

definition edited_world :: world where
  "edited_world =
     user_writes ''projects/a.md'' ''a new note'' (user_writes ''inbox/a.md'' ''rewritten by hand'' undone_world)"


section \<open>Verified properties\<close>

subsection \<open>The store\<close>

lemma map_of_alist_update:
  "map_of (alist_update k v xs) = (map_of xs)(k \<mapsto> v)"
  by (induction xs) (auto simp: fun_eq_iff)


lemma keys_alist_update:
  "fst ` set (alist_update k v xs) = insert k (fst ` set xs)"
  by (induction xs) auto

lemma distinct_alist_update:
  "distinct (map fst xs) \<Longrightarrow> distinct (map fst (alist_update k v xs))"
proof (induction xs)
  case Nil
  then show ?case by simp
next
  case (Cons p ps)
  have "fst ` set (alist_update k v ps) = insert k (fst ` set ps)"
    by (rule keys_alist_update)
  with Cons show ?case by auto
qed

lemma db_insert_map:
  "db_insert e d i x = Inr d' \<Longrightarrow> map_of d' = (map_of d)(i \<mapsto> x)"
  by (auto simp: db_insert_def map_of_alist_update split: if_splits)

lemma db_insert_ok:
  "\<not> insert_fails e i \<Longrightarrow> \<exists>d'. db_insert e d i x = Inr d'"
  by (simp add: db_insert_def)

lemma writeNote_map:
  "writeNote e d p c = Inr d' \<Longrightarrow>
   map_of d' = (map_of d)(pathToId p \<mapsto>
     \<lparr>doc_path = p, doc_content = sanitizeUnicode c, doc_deleted = False, doc_encrypted = False\<rparr>)"
  by (auto simp: writeNote_def Let_def split: sum.splits if_splits dest: db_insert_map)

lemma deleteNote_map:
  "deleteNote e d p = Inr d' \<Longrightarrow>
   \<exists>x. map_of d (pathToId p) = Some x \<and>
       map_of d' = (map_of d)(pathToId p \<mapsto> x\<lparr>doc_deleted := True, doc_content := []\<rparr>)"
  by (auto simp: deleteNote_def db_get_def Let_def split: sum.splits if_splits option.splits dest: db_insert_map)

lemma writeNote_ok:
  "\<not> get_fails e (pathToId p) \<Longrightarrow> \<not> insert_fails e (pathToId p) \<Longrightarrow> \<exists>d'. writeNote e d p c = Inr d'"
  by (auto simp: writeNote_def db_get_def db_insert_def Let_def split: option.splits)

lemma deleteNote_ok:
  "\<not> get_fails e (pathToId p) \<Longrightarrow> \<not> insert_fails e (pathToId p) \<Longrightarrow> map_of d (pathToId p) \<noteq> None
   \<Longrightarrow> \<exists>d'. deleteNote e d p = Inr d'"
  by (auto simp: deleteNote_def db_get_def db_insert_def Let_def split: option.splits)


lemma readNote_Some:
  "readNote e d p = Inr (Some nf) \<Longrightarrow>
   \<exists>x. map_of d (pathToId p) = Some x \<and> nf_path nf = doc_path x \<and> nf_content nf = doc_content x"
  by (auto simp: readNote_def db_get_def split: sum.splits if_splits option.splits)

lemma readNote_present:
  "map_of d (pathToId p) = Some x \<Longrightarrow> readNote e d p \<noteq> Inr None"
  by (auto simp: readNote_def db_get_def split: sum.splits if_splits option.splits)

subsection \<open>One note\<close>

declare collision_loop.simps [simp del]

lemma collision_loop_free:
  "collision_loop e d tp f c = Inr fp \<Longrightarrow> readNote e d fp = Inr None"
proof (induction e d tp f c rule: collision_loop.induct)
  case (1 e d tp finalPath counter)
  show ?case
  proof (cases "readNote e d finalPath")
    case (Inl err)
    with "1.prems" show ?thesis by (simp add: collision_loop.simps [of e d tp finalPath counter])
  next
    case (Inr r)
    show ?thesis
    proof (cases r)
      case None
      with Inr "1.prems" show ?thesis by (simp add: collision_loop.simps [of e d tp finalPath counter])
    next
      case (Some existing)
      with Inr "1.prems" have "\<not> counter + 1 > 100"
        by (auto simp: collision_loop.simps [of e d tp finalPath counter] split: if_splits)
      moreover from this Some Inr "1.prems"
      have "collision_loop e d tp (suffixed tp counter) (counter + 1) = Inr fp"
        by (simp add: collision_loop.simps [of e d tp finalPath counter])
      ultimately show ?thesis using "1.IH" [OF Inr Some] by simp
    qed
  qed
qed

lemma resolveCollision_free:
  "resolveCollision e d tp False = Inr fp \<Longrightarrow> readNote e d fp = Inr None"
  by (simp add: resolveCollision_def collision_loop_free)

lemma queueForReview_cases:
  assumes "queueForReview e n False sid w = (r, w')"
  obtains
    (unwritten) err where "r = Inl err" "w' = w"
  | (undeleted) err c d1 where "r = Inl err"
      "writeNote e (db w) (queue_path n) c = Inr d1" "w' = w\<lparr>db := d1\<rparr>"
  | (queued) c d1 d2 where "r = Inr (queued_detail n (queue_path n) False)"
      "writeNote e (db w) (queue_path n) c = Inr d1"
      "deleteNote e d1 (n_path n) = Inr d2"
      "w' = w\<lparr>db := d2, history := trackOperation e sid
          \<lparr>op_action = ''queue'', originalPath = n_path n,
           targetPath = queue_path n, timestamp = now e,
           originalContent = n_content n, newContent = c\<rparr> (history w)\<rparr>"
proof -
  define c where "c = buildNote e (alist_update ''queued_at'' (Str (toISOString e (now e)))
        (alist_update ''review_needed'' (Bool True) (object_entries (n_frontmatter n)))) (n_body n)"
  have eq: "queueForReview e n False sid w =
     (case writeNote e (db w) (queue_path n) c of
              Inl err \<Rightarrow> (Inl err, w)
            | Inr d1 \<Rightarrow>
                (case deleteNote e d1 (n_path n) of
                   Inl err \<Rightarrow> (Inl err, w\<lparr>db := d1\<rparr>)
                 | Inr d2 \<Rightarrow>
                     (Inr (queued_detail n (queue_path n) False),
                      w\<lparr>db := d2,
                         history := trackOperation e sid
                           \<lparr>op_action = ''queue'', originalPath = n_path n, targetPath = queue_path n,
                            timestamp = now e, originalContent = n_content n,
                            newContent = c\<rparr> (history w)\<rparr>)))"
    by (simp only: queueForReview_def Let_def if_False queue_path_def c_def)
  show ?thesis
  proof (cases "writeNote e (db w) (queue_path n) c")
    case (Inl err)
    with assms eq have "r = Inl err" "w' = w" by simp_all
    then show ?thesis by (rule unwritten)
  next
    case (Inr d1)
    note w = this
    show ?thesis
    proof (cases "deleteNote e d1 (n_path n)")
      case (Inl err)
      with assms eq w have "r = Inl err" "w' = w\<lparr>db := d1\<rparr>" by simp_all
      then show ?thesis using w by (intro undeleted)
    next
      case (Inr d2)
      with assms eq w show ?thesis by (intro queued [of c d1 d2]) simp_all
    qed
  qed
qed

lemma fileNote_low:
  assumes "low_confidence n mc" "suggestions_of n \<noteq> Undefined" "suggestions_of n \<noteq> Null"
  shows "fileNote e n mc dry sid w = queueForReview e n dry sid w"
proof (cases "parseConfidence (get_prop (suggestions_of n) ''confidence'')")
  case (Inl err)
  with assms(1) show ?thesis by (simp add: low_confidence_def)
next
  case (Inr c)
  with assms show ?thesis
    unfolding suggestions_of_def low_confidence_def
    by (simp add: fileNote_def)
qed

lemma fileNote_cases:
  assumes "fileNote e n mc dry sid w = (r, w')"
  obtains
    (unwritten) err where "r = Inl err" "w' = w"
  | (undeleted) err p c d1 where "r = Inl err" "\<not> dry"
      "writeNote e (db w) p c = Inr d1" "w' = w\<lparr>db := d1\<rparr>"
  | (preview_queued) "dry" "low_confidence n mc" "r = Inr (queued_detail n (queue_path n) True)" "w' = w"
  | (preview_filed) fp where "dry" "\<not> low_confidence n mc" "r = Inr (filed_detail n (suggestions_of n) fp True)" "w' = w"
  | (queued) c d1 d2 where "\<not> dry" "low_confidence n mc" "r = Inr (queued_detail n (queue_path n) False)"
      "writeNote e (db w) (queue_path n) c = Inr d1"
      "deleteNote e d1 (n_path n) = Inr d2"
      "w' = w\<lparr>db := d2, history := trackOperation e sid
          \<lparr>op_action = ''queue'', originalPath = n_path n,
           targetPath = queue_path n, timestamp = now e,
           originalContent = n_content n, newContent = c\<rparr> (history w)\<rparr>"
  | (filed) fp c d1 d2 where "\<not> dry" "\<not> low_confidence n mc" "r = Inr (filed_detail n (suggestions_of n) fp False)"
      "readNote e (db w) fp = Inr None"
      "writeNote e (db w) fp c = Inr d1"
      "deleteNote e d1 (n_path n) = Inr d2"
      "w' = w\<lparr>db := d2, history := trackOperation e sid
          \<lparr>op_action = ''file'', originalPath = n_path n,
           targetPath = fp, timestamp = now e,
           originalContent = n_content n, newContent = c\<rparr> (history w)\<rparr>"
proof (cases "suggestions_of n = Undefined \<or> suggestions_of n = Null")
  case True
  with assms have "r = Inl (TypeError ''Cannot read properties of undefined'')" "w' = w"
    by (auto simp: fileNote_def suggestions_of_def)
  then show ?thesis by (rule unwritten)
next
  case False
  note sug = this
  show ?thesis
  proof (cases "parseConfidence (get_prop (suggestions_of n) ''confidence'')")
    case (Inl err)
    with assms sug have "r = Inl err" "w' = w"
      by (auto simp: fileNote_def suggestions_of_def)
    then show ?thesis by (rule unwritten)
  next
    case (Inr cf)
    note conf = this
    show ?thesis
    proof (cases "js_lt cf mc")
      case True
      with conf have low: "low_confidence n mc" by (auto simp: low_confidence_def)
      with sug have q: "queueForReview e n dry sid w = (r, w')"
        using assms fileNote_low [of n mc e dry sid w] by simp
      show ?thesis
      proof (cases dry)
        case True
        with q have "r = Inr (queued_detail n (queue_path n) True)" "w' = w"
          by (simp_all add: queueForReview_def queue_path_def Let_def)
        with True low show ?thesis by (intro preview_queued)
      next
        case False
        with q have q': "queueForReview e n False sid w = (r, w')" by simp
        from q' show ?thesis
        proof (cases rule: queueForReview_cases)
          case (unwritten err)
          then show ?thesis by (intro that(1))
        next
          case (undeleted err c d1)
          with False show ?thesis by (intro that(2)) 
        next
          case (queued c d1 d2)
          with False low show ?thesis by (intro that(5))
        qed
      qed
    next
      case False
      with conf have nlow: "\<not> low_confidence n mc" by (auto simp: low_confidence_def)
      show ?thesis
      proof (cases "learning w")
        case (Inl err)
        with assms sug conf False have "r = Inl err" "w' = w"
          by (simp_all add: fileNote_def suggestions_of_def Let_def)
        then show ?thesis by (rule unwritten)
      next
        case (Inr fps)
        note learn = this
        let ?tf = "if js_truthy (getFolderHints fps (n_body n)) then getFolderHints fps (n_body n) else get_prop (suggestions_of n) ''folder''"
        from assms sug conf False learn
        have eq: "(case path_join ?tf (Str (basename (n_path n))) of
                             Inl err \<Rightarrow> (Inl err, w)
                           | Inr tp \<Rightarrow>
                               (case resolveCollision e (db w) tp dry of
                                  Inl err \<Rightarrow> (Inl err, w)
                                | Inr finalPath \<Rightarrow>
                                    (case buildUpdatedNote e n (suggestions_of n) of
                                       Inl err \<Rightarrow> (Inl err, w)
                                     | Inr updatedNote \<Rightarrow>
                                         if dry then (Inr (filed_detail n (suggestions_of n) finalPath True), w)
                                         else
                                           (case writeNote e (db w) finalPath updatedNote of
                                              Inl err \<Rightarrow> (Inl err, w)
                                            | Inr d1 \<Rightarrow>
                                                (case deleteNote e d1 (n_path n) of
                                                   Inl err \<Rightarrow> (Inl err, w\<lparr>db := d1\<rparr>)
                                                 | Inr d2 \<Rightarrow>
                                                     (Inr (filed_detail n (suggestions_of n) finalPath False),
                                                      w\<lparr>db := d2,
                                                         history := trackOperation e sid
                                                           \<lparr>op_action = ''file'', originalPath = n_path n,
                                                            targetPath = finalPath, timestamp = now e,
                                                            originalContent = n_content n,
                                                            newContent = updatedNote\<rparr> (history w)\<rparr>)))))) = (r, w')"
          unfolding suggestions_of_def
          by (simp add: fileNote_def Let_def split del: if_split)
        show ?thesis
        proof (cases "path_join ?tf (Str (basename (n_path n)))")
          case (Inl err)
          with eq learn have "r = Inl err" "w' = w" by simp_all
          then show ?thesis by (rule unwritten)
        next
          case (Inr tp)
          note tp = this
          show ?thesis
          proof (cases "resolveCollision e (db w) tp dry")
            case (Inl err)
            with eq learn tp have "r = Inl err" "w' = w" by simp_all
            then show ?thesis by (rule unwritten)
          next
            case (Inr fp)
            note fp = this
            show ?thesis
            proof (cases "buildUpdatedNote e n (suggestions_of n)")
              case (Inl err)
              with eq learn tp fp have "r = Inl err" "w' = w" by simp_all
              then show ?thesis by (rule unwritten)
            next
              case (Inr c)
              note c = this
              show ?thesis
              proof (cases dry)
                case True
                with eq learn tp fp c have "r = Inr (filed_detail n (suggestions_of n) fp True)" "w' = w"
                  by simp_all
                with True nlow show ?thesis by (intro preview_filed)
              next
                case False
                note ndry = this
                with fp have free: "readNote e (db w) fp = Inr None"
                  by (simp add: resolveCollision_free)
                show ?thesis
                proof (cases "writeNote e (db w) fp c")
                  case (Inl err)
                  with eq learn tp fp c ndry have "r = Inl err" "w' = w" by simp_all
                  then show ?thesis by (rule unwritten)
                next
                  case (Inr d1)
                  note d1 = this
                  show ?thesis
                  proof (cases "deleteNote e d1 (n_path n)")
                    case (Inl err)
                    with eq learn tp fp c ndry d1 have "r = Inl err" "w' = w\<lparr>db := d1\<rparr>" by simp_all
                    with ndry d1 show ?thesis by (intro undeleted)
                  next
                    case (Inr d2)
                    with eq learn tp fp c ndry d1
                    have "r = Inr (filed_detail n (suggestions_of n) fp False)"
                      "w' = w\<lparr>db := d2, history := trackOperation e sid
                          \<lparr>op_action = ''file'', originalPath = n_path n,
                           targetPath = fp, timestamp = now e,
                           originalContent = n_content n, newContent = c\<rparr> (history w)\<rparr>"
                      by simp_all
                    with ndry nlow free d1 Inr show ?thesis by (intro filed)
                  qed
                qed
              qed
            qed
          qed
        qed
      qed
    qed
  qed
qed


subsection \<open>Confidence\<close>

text \<open>
  Claim C2, as amended. \<open>parseConfidence\<close> returns a number as it is; it compares the
  lower-cased string with the three labels (0.9, 0.6, 0.3) and otherwise returns what
  \<open>parseFloat\<close> reads at the start of the string, or 0.5 when that is \<open>NaN\<close>; \<open>undefined\<close>,
  \<open>null\<close> and \<open>false\<close> give 0.5. Nothing is clamped: the result lies in the unit interval
  when the number passed or read does.
\<close>

theorem parseConfidence_amended:
  "parseConfidence (Num x) = Inr x \<and>
   parseConfidence (Str s) =
     Inr (if toLowerCase s = ''high'' then Fin (9 / 10)
          else if toLowerCase s = ''medium'' then Fin (6 / 10)
          else if toLowerCase s = ''low'' then Fin (3 / 10)
          else if parseFloat s = NaN then Fin (5 / 10)
          else parseFloat s) \<and>
   parseConfidence Undefined = Inr (Fin (5 / 10)) \<and>
   parseConfidence Null = Inr (Fin (5 / 10)) \<and>
   parseConfidence (Bool False) = Inr (Fin (5 / 10)) \<and>
   (in_unit_interval x \<longrightarrow> (\<exists>r. parseConfidence (Num x) = Inr r \<and> in_unit_interval r)) \<and>
   (toLowerCase s \<in> {''high'', ''medium'', ''low''} \<or> parseFloat s = NaN \<or> in_unit_interval (parseFloat s)
      \<longrightarrow> (\<exists>r. parseConfidence (Str s) = Inr r \<and> in_unit_interval r))"
proof -
  have num: "parseConfidence (Num x) = Inr x"
    by (simp add: parseConfidence_def)
  have empty: "parseFloat [] = NaN"
    by (simp add: parseFloat_def decimal_literal_def startsWith_def)
  have str: "parseConfidence (Str s) =
     Inr (if toLowerCase s = ''high'' then Fin (9 / 10)
          else if toLowerCase s = ''medium'' then Fin (6 / 10)
          else if toLowerCase s = ''low'' then Fin (3 / 10)
          else if parseFloat s = NaN then Fin (5 / 10)
          else parseFloat s)"
  proof (cases "s = []")
    case True
    then show ?thesis by (simp add: parseConfidence_def toLowerCase_def empty)
  next
    case False
    then show ?thesis by (simp add: parseConfidence_def Let_def)
  qed
  have undef: "parseFloat ''undefined'' = NaN" "parseFloat ''null'' = NaN" "parseFloat ''false'' = NaN"
    by (simp_all add: parseFloat_def decimal_literal_def startsWith_def is_space_def is_digit_def code_unit_def)
  have others: "parseConfidence Undefined = Inr (Fin (5 / 10))"
    "parseConfidence Null = Inr (Fin (5 / 10))" "parseConfidence (Bool False) = Inr (Fin (5 / 10))"
    by (simp_all add: parseConfidence_def toLowerCase_def undef empty)
  have range_str: "in_unit_interval r" 
    if "toLowerCase s \<in> {''high'', ''medium'', ''low''} \<or> parseFloat s = NaN \<or> in_unit_interval (parseFloat s)"
      and "parseConfidence (Str s) = Inr r" for r
    using that unfolding str
    by (auto simp: in_unit_interval_def split: if_splits)
  show ?thesis
    using num str others range_str by (auto simp del: One_nat_def)
qed

theorem parseConfidence_amended_witness:
  "parseConfidence (Str ''0.75'') = Inr (Fin (3 / 4)) \<and> in_unit_interval (Fin (3 / 4))"
proof -
  have pf: "parseFloat ''0.75'' = Fin (3 / 4)" by code_simp
  have iu: "in_unit_interval (Fin (3 / 4))" by (simp add: in_unit_interval_def)
  have lw: "toLowerCase ''0.75'' = ''0.75''" by code_simp
  from parseConfidence_amended [of "Fin (3 / 4)" "''0.75''"] pf iu lw
  show ?thesis by auto
qed

text \<open>The number 5 is passed through, outside the unit interval.\<close>

theorem parseConfidence_range_counterexample:
  "parseConfidence (Num (Fin 5)) = Inr (Fin 5) \<and> \<not> in_unit_interval (Fin 5)"
  by (simp add: parseConfidence_def in_unit_interval_def)

subsection \<open>Defaults of the options\<close>


subsection \<open>Keywords\<close>

text \<open>The keywords are at most 20 of the counted words, so none of them is a stop word
  or shorter than four code units.\<close>

lemma set_sort_insert: "set (sort_insert cmp x ys) = insert x (set ys)"
  by (induction ys) auto

lemma set_js_sort_aux: "set (foldl (\<lambda>acc x. sort_insert cmp x acc) acc xs) = set acc \<union> set xs"
  by (induction xs arbitrary: acc) (auto simp: set_sort_insert)

lemma set_js_sort: "set (js_sort cmp xs) = set xs"
  by (simp add: js_sort_def set_js_sort_aux)

lemma set_object_entries: "set (object_entries obj) = set obj"
  by (auto simp: object_entries_def)

lemma keys_count_word: "fst ` set (count_word freq word) \<subseteq> insert word (fst ` set freq)"
  by (auto simp: count_word_def prop_set_primitive_def keys_alist_update)

lemma keys_counted: "fst ` set (foldl count_word freq ws) \<subseteq> fst ` set freq \<union> set ws"
proof (induction ws arbitrary: freq)
  case Nil
  then show ?case by simp
next
  case (Cons w ws)
  from Cons.IH [of "count_word freq w"] keys_count_word [of freq w]
  show ?case by auto
qed

lemma extractKeywords_bounds:
  "length (extractKeywords content) \<le> 20
   \<and> set (extractKeywords content) \<subseteq> set (keyword_tokens content)
   \<and> list_all (\<lambda>k. \<not> isStopWord k \<and> 3 < length k) (extractKeywords content)"
proof -
  have sub: "set (extractKeywords content) \<subseteq> set (keyword_tokens content)"
  proof
    fix k
    assume "k \<in> set (extractKeywords content)"
    then have "k \<in> fst ` set (foldl count_word [] (keyword_tokens content))"
      by (auto simp: extractKeywords_def Let_def set_js_sort set_object_entries dest!: in_set_takeD)
    with keys_counted [of "[]" "keyword_tokens content"] show "k \<in> set (keyword_tokens content)"
      by auto
  qed
  have "\<not> isStopWord k \<and> 3 < length k" if "k \<in> set (keyword_tokens content)" for k
    using that by (auto simp: keyword_tokens_def Let_def)
  with sub have "list_all (\<lambda>k. \<not> isStopWord k \<and> 3 < length k) (extractKeywords content)"
    by (auto simp: list_all_iff)
  moreover have "length (extractKeywords content) \<le> 20"
    by (simp add: extractKeywords_def Let_def)
  ultimately show ?thesis using sub by simp
qed

text \<open>
  Claim C9, at the failing input. The word \<open>constructor\<close> occurs twice and \<open>aaaa\<close> once,
  but the frequency table inherits a property \<open>constructor\<close>, the count becomes a string,
  the comparison yields \<open>NaN\<close>, and the keywords keep the order of their first occurrence.
\<close>

theorem extractKeywords_constructor_order:
  "extractKeywords ''aaaa constructor constructor'' = [''aaaa'', ''constructor'']
   \<and> count_list (keyword_tokens ''aaaa constructor constructor'') ''aaaa'' = 1
   \<and> count_list (keyword_tokens ''aaaa constructor constructor'') ''constructor'' = 2"
  by code_simp

subsection \<open>The review queue\<close>


subsection \<open>The ledger and the batch loop\<close>



lemma filed_detail_simps [simp]:
  "d_path (filed_detail n s fp pv) = n_path n"
  "d_action (filed_detail n s fp pv) = ''filed''"
  "d_targetPath (filed_detail n s fp pv) = Some fp"
  "d_reason (filed_detail n s fp pv) = None"
  by (simp_all add: filed_detail_def)

lemma queued_detail_simps [simp]:
  "d_path (queued_detail n qp pv) = n_path n"
  "d_action (queued_detail n qp pv) = ''queued''"
  "d_targetPath (queued_detail n qp pv) = Some qp"
  "d_reason (queued_detail n qp pv) = Some ''Low confidence''"
  by (simp_all add: queued_detail_def)

lemma failed_detail_simps [simp]:
  "d_path (failed_detail n err) = n_path n"
  "d_action (failed_detail n err) = ''failed''"
  "d_targetPath (failed_detail n err) = None"
  "d_error (failed_detail n err) = Some (message err)"
  by (simp_all add: failed_detail_def)

lemma writeNote_dom:
  "writeNote e d p c = Inr d' \<Longrightarrow> dom (map_of d') = insert (pathToId p) (dom (map_of d))"
  by (drule writeNote_map) auto

lemma deleteNote_dom:
  "deleteNote e d p = Inr d' \<Longrightarrow> dom (map_of d') = dom (map_of d)"
  by (drule deleteNote_map) (auto split: if_splits)









subsection \<open>Undo\<close>










subsection \<open>The notes of a batch\<close>

lemma wf_db_consistent: "wf_db d \<Longrightarrow> consistent_ids d"
  unfolding wf_db_def consistent_ids_def
  by (auto simp: list_all_iff dest!: map_of_SomeD)

lemma read_processed_notes:
  assumes "read_processed e d ps = Inr ns" "consistent_ids d" "distinct (map pathToId ps)"
  shows "distinct (map (\<lambda>n. pathToId (n_path n)) ns)
         \<and> (\<lambda>n. pathToId (n_path n)) ` set ns \<subseteq> pathToId ` set ps
         \<and> (\<forall>n \<in> set ns. \<exists>x. map_of d (pathToId (n_path n)) = Some x \<and> doc_content x = n_content n
               \<and> doc_path x = n_path n \<and> js_truthy (suggestions_of n))"
  using assms
proof (induction ps arbitrary: ns)
  case Nil
  then show ?case by simp
next
  case (Cons p ps)
  from Cons.prems(3) have dps: "distinct (map pathToId ps)" and pf: "pathToId p \<notin> pathToId ` set ps"
    by simp_all
  show ?case
  proof (cases "readNote e d p")
    case (Inl err)
    with Cons.prems(1) show ?thesis by simp
  next
    case (Inr ro)
    show ?thesis
    proof (cases ro)
      case None
      with Inr Cons.prems(1) have "read_processed e d ps = Inr ns" by simp
      from Cons.IH [OF this Cons.prems(2) dps] show ?thesis by auto
    next
      case (Some nf)
      from readNote_Some [OF Inr [unfolded Some]] obtain x where
        x: "map_of d (pathToId p) = Some x" "nf_path nf = doc_path x" "nf_content nf = doc_content x"
        by blast
      from x(1) Cons.prems(2) have idp: "pathToId p = pathToId (doc_path x)"
        by (simp add: consistent_ids_def)
      show ?thesis
      proof (cases "parseFrontmatter e (nf_content nf)")
        case (Inl err)
        with Inr Some Cons.prems(1) show ?thesis by simp
      next
        case (Inr fb)
        obtain fm bd where fb: "fb = (fm, bd)" by (cases fb)
        show ?thesis
        proof (cases "js_truthy (prop_get fm ''ai_suggestions'')")
          case False
          with \<open>readNote e d p = Inr ro\<close> Some Inr fb Cons.prems(1)
          have "read_processed e d ps = Inr ns" by simp
          from Cons.IH [OF this Cons.prems(2) dps] show ?thesis by auto
        next
          case True
          let ?n = "\<lparr>n_path = nf_path nf, n_frontmatter = fm, n_body = bd, n_content = nf_content nf\<rparr>"
          from \<open>readNote e d p = Inr ro\<close> Some Inr fb True Cons.prems(1)
          obtain ns' where rest: "read_processed e d ps = Inr ns'" and ns: "ns = ?n # ns'"
            by (auto split: sum.splits)
          from Cons.IH [OF rest Cons.prems(2) dps]
          have ih: "distinct (map (\<lambda>n. pathToId (n_path n)) ns')"
            "(\<lambda>n. pathToId (n_path n)) ` set ns' \<subseteq> pathToId ` set ps"
            "\<forall>n \<in> set ns'. \<exists>x. map_of d (pathToId (n_path n)) = Some x \<and> doc_content x = n_content n
               \<and> doc_path x = n_path n \<and> js_truthy (suggestions_of n)"
            by blast+
          have idn: "pathToId (n_path ?n) = pathToId p" using x(2) idp by simp
          have hd_ok: "\<exists>x. map_of d (pathToId (n_path ?n)) = Some x \<and> doc_content x = n_content ?n
               \<and> doc_path x = n_path ?n \<and> js_truthy (suggestions_of ?n)"
            using x True idp by (simp add: suggestions_of_def)
          from ih(2) pf idn have "pathToId (n_path ?n) \<notin> (\<lambda>n. pathToId (n_path n)) ` set ns'"
            by auto
          with ih hd_ok idn show ?thesis unfolding ns by auto
        qed
      qed
    qed
  qed
qed

lemma listed_paths_distinct:
  assumes "wf_db d" "listNotes e d = Inr ps"
  shows "distinct (map pathToId ps)"
proof -
  let ?rows = "filter (\<lambda>row. fst row \<noteq> ''obsydian_livesync_version'')
                     (filter (\<lambda>row. \<not> startsWith (fst row) ''h:'' \<and> \<not> startsWith (fst row) ''_'') d)"
  from assms(2) have ps: "ps = map (\<lambda>row. doc_path (snd row)) ?rows"
    by (auto simp: listNotes_def split: if_splits)
  from assms(1) have "\<forall>row \<in> set ?rows. pathToId (doc_path (snd row)) = fst row"
    by (auto simp: wf_db_def list_all_iff)
  then have "map pathToId ps = map fst ?rows"
    unfolding ps by (simp add: comp_def)
  moreover from assms(1) have "distinct (map fst ?rows)"
    by (simp add: wf_db_def distinct_map_filter)
  ultimately show ?thesis by simp
qed

lemma processed_notes:
  assumes "getProcessedInboxNotes e d = Inr ns" "wf_db d"
  shows "distinct (map (\<lambda>n. pathToId (n_path n)) ns)
         \<and> (\<forall>n \<in> set ns. \<exists>x. map_of d (pathToId (n_path n)) = Some x \<and> doc_content x = n_content n
               \<and> doc_path x = n_path n \<and> js_truthy (suggestions_of n))"
proof -
  from assms(1) obtain ps where l: "listNotes e d = Inr ps"
    and r: "read_processed e d (filter (\<lambda>p. startsWith p (if inboxPath e \<noteq> [] then inboxPath e else ''inbox/'')) ps) = Inr ns"
    by (auto simp: getProcessedInboxNotes_def Let_def split: sum.splits)
  from listed_paths_distinct [OF assms(2) l]
  have "distinct (map pathToId (filter (\<lambda>p. startsWith p (if inboxPath e \<noteq> [] then inboxPath e else ''inbox/'')) ps))"
    by (simp add: distinct_map_filter)
  from read_processed_notes [OF r wf_db_consistent [OF assms(2)] this] show ?thesis by blast
qed

lemma slice_to_take: "\<exists>k. slice_to l xs = take k xs"
proof (cases l)
  case (Fin q)
  then show ?thesis by (auto simp: slice_to_def Let_def)
next
  case NaN
  then show ?thesis by (auto simp: slice_to_def intro: exI [of _ 0])
next
  case PInf
  then show ?thesis by (auto simp: slice_to_def intro: exI [of _ "length xs"])
next
  case NInf
  then show ?thesis by (auto simp: slice_to_def intro: exI [of _ 0])
qed

lemma count_result_sessionId [simp]: "r_sessionId (count_result det res) = r_sessionId res"
  by (simp add: count_result_def)

lemma count_result_details [simp]: "r_details (count_result det res) = r_details res"
  by (simp add: count_result_def)


lemma fileNotes_unfold:
  "fileNotes e opts w =
     (case getProcessedInboxNotes e (db w) of
        Inl err \<Rightarrow> (Inl (Error (''Filing failed: '' @ message err)), w)
      | Inr inboxNotes \<Rightarrow>
          if inboxNotes = [] then
            (Inr ((empty_result e opts)\<lparr>r_message := Some ''No processed notes found in inbox''\<rparr>), w)
          else
            (case file_loop e (threshold_of opts) (dry_run_of opts) (session_id_of e opts)
                    (slice_to (limit_of opts) inboxNotes) (empty_result e opts) w of
               (res, w1) \<Rightarrow> (Inr res, w1)))"
  unfolding fileNotes_def session_id_of_def dry_run_of_def threshold_of_def limit_of_def empty_result_def Let_def
  by (rule refl)

lemma fileNotes_cases:
  assumes "fileNotes e opts w = (r, w1)"
  obtains
    (enumeration) err where "getProcessedInboxNotes e (db w) = Inl err"
      "r = Inl (Error (''Filing failed: '' @ message err))" "w1 = w"
  | (nothing) "getProcessedInboxNotes e (db w) = Inr []"
      "r = Inr ((empty_result e opts)\<lparr>r_message := Some ''No processed notes found in inbox''\<rparr>)" "w1 = w"
  | (batch) nts res where "getProcessedInboxNotes e (db w) = Inr nts" "nts \<noteq> []" "r = Inr res"
      "file_loop e (threshold_of opts) (dry_run_of opts) (session_id_of e opts)
         (slice_to (limit_of opts) nts) (empty_result e opts) w = (res, w1)"
proof (cases "getProcessedInboxNotes e (db w)")
  case (Inl err)
  with assms have "r = Inl (Error (''Filing failed: '' @ message err))" "w1 = w"
    by (simp_all add: fileNotes_unfold)
  with Inl show ?thesis by (intro enumeration [of err])
next
  case (Inr nts)
  show ?thesis
  proof (cases "nts = []")
    case True
    with Inr assms have "getProcessedInboxNotes e (db w) = Inr []"
      "r = Inr ((empty_result e opts)\<lparr>r_message := Some ''No processed notes found in inbox''\<rparr>)" "w1 = w"
      by (simp_all add: fileNotes_unfold)
    then show ?thesis by (rule nothing)
  next
    case False
    obtain res w' where l: "file_loop e (threshold_of opts) (dry_run_of opts) (session_id_of e opts)
         (slice_to (limit_of opts) nts) (empty_result e opts) w = (res, w')"
      by (cases "file_loop e (threshold_of opts) (dry_run_of opts) (session_id_of e opts)
         (slice_to (limit_of opts) nts) (empty_result e opts) w")
    with Inr False assms have "r = Inr res" "w1 = w'" by (simp_all add: fileNotes_unfold)
    with Inr False l show ?thesis by (intro batch [of nts res]) simp_all
  qed
qed

subsection \<open>Filing, then undoing\<close>


lemma sanitizeUnicode_is_ascii: "is_ascii (sanitizeUnicode s)"
  by (simp add: is_ascii_def sanitizeUnicode_def list_all_iff)




subsection \<open>Failures of single notes and notes of low confidence\<close>

lemma length_outcomes [simp]: "length (outcomes e mc dry sid ns w) = length ns"
  by (induction ns arbitrary: w) auto

lemma fileNote_result_action:
  assumes "fileNote e n mc dry sid w = (Inr det, w1)"
  shows "d_path det = n_path n \<and> (d_action det = ''filed'' \<or> d_action det = ''queued'')
         \<and> (low_confidence n mc \<longrightarrow> d_action det = ''queued'')
         \<and> (\<not> low_confidence n mc \<longrightarrow> d_action det = ''filed'')"
  using assms by (cases rule: fileNote_cases) auto

lemma file_loop_outcomes:
  assumes "file_loop e mc dry sid ns res w = (res', w')"
  shows "r_details res' = r_details res @ map2 detail_of ns (outcomes e mc dry sid ns w)
         \<and> r_processed res' = r_processed res + length ns
         \<and> r_failed res' = r_failed res + length (filter threw (outcomes e mc dry sid ns w))
         \<and> r_filed res' + r_queued res' = r_filed res + r_queued res
               + length (filter (\<lambda>r. \<not> threw r) (outcomes e mc dry sid ns w))
         \<and> r_skipped res' = r_skipped res"
  using assms
proof (induction ns arbitrary: res w)
  case Nil
  then show ?case by simp
next
  case (Cons n ns)
  obtain r w1 where step: "fileNote e n mc dry sid w = (r, w1)" by (cases "fileNote e n mc dry sid w")
  show ?case
  proof (cases r)
    case (Inl err)
    let ?res1 = "res\<lparr>r_processed := r_processed res + 1, r_failed := r_failed res + 1,
          r_details := r_details res @ [failed_detail n err]\<rparr>"
    from Cons.prems step Inl have "file_loop e mc dry sid ns ?res1 w1 = (res', w')" by simp
    from Cons.IH [OF this] step Inl show ?thesis
      by (simp add: detail_of_def threw_def)
  next
    case (Inr det)
    let ?res1 = "(count_result det (res\<lparr>r_processed := r_processed res + 1\<rparr>))
          \<lparr>r_details := r_details res @ [det]\<rparr>"
    from Cons.prems step Inr have l: "file_loop e mc dry sid ns ?res1 w1 = (res', w')" by simp
    from fileNote_result_action [OF step [unfolded Inr]]
    have act: "d_action det = ''filed'' \<or> d_action det = ''queued''" by simp
    then have cnt: "r_filed ?res1 + r_queued ?res1 = r_filed res + r_queued res + 1"
      "r_failed ?res1 = r_failed res" "r_skipped ?res1 = r_skipped res"
      "r_processed ?res1 = r_processed res + 1"
      by (auto simp: count_result_def)
    from Cons.IH [OF l] step Inr cnt show ?thesis
      by (simp add: detail_of_def threw_def)
  qed
qed

lemma fileNote_dom:
  assumes "fileNote e n mc dry sid w = (r, w1)"
  shows "dom (map_of (db w)) \<subseteq> dom (map_of (db w1))"
  using assms by (cases rule: fileNote_cases) (auto simp: writeNote_dom deleteNote_dom)

lemma outcomes_nth:
  assumes "i < length ns"
  shows "\<exists>wi. outcomes e mc dry sid ns w ! i = fst (fileNote e (ns ! i) mc dry sid wi)
              \<and> dom (map_of (db w)) \<subseteq> dom (map_of (db wi))"
  using assms
proof (induction ns arbitrary: i w)
  case Nil
  then show ?case by simp
next
  case (Cons n ns)
  show ?case
  proof (cases i)
    case 0
    then show ?thesis by auto
  next
    case (Suc j)
    with Cons.prems have j: "j < length ns" by simp
    obtain r w1 where step: "fileNote e n mc dry sid w = (r, w1)" by (cases "fileNote e n mc dry sid w")
    from Cons.IH [OF j, of w1] obtain wi where
      wi: "outcomes e mc dry sid ns w1 ! j = fst (fileNote e (ns ! j) mc dry sid wi)"
      "dom (map_of (db w1)) \<subseteq> dom (map_of (db wi))" by blast
    from fileNote_dom [OF step] wi(2) have "dom (map_of (db w)) \<subseteq> dom (map_of (db wi))" by blast
    with wi(1) step Suc show ?thesis by auto
  qed
qed

lemma queueForReview_dry:
  "queueForReview e n True sid w = (Inr (queued_detail n (queue_path n) True), w)"
  by (simp add: queueForReview_def queue_path_def)

lemma queueForReview_succeeds:
  assumes ok: "\<forall>k. \<not> get_fails e k \<and> \<not> insert_fails e k"
    and there: "pathToId (n_path n) \<in> dom (map_of (db w))"
  shows "fst (queueForReview e n dry sid w) = Inr (queued_detail n (queue_path n) dry)"
proof (cases dry)
  case True
  then show ?thesis by (simp add: queueForReview_dry)
next
  case False
  obtain r w' where q: "queueForReview e n False sid w = (r, w')"
    by (cases "queueForReview e n False sid w")
  define c where "c = buildNote e (alist_update ''queued_at'' (Str (toISOString e (now e)))
        (alist_update ''review_needed'' (Bool True) (object_entries (n_frontmatter n)))) (n_body n)"
  have eq: "queueForReview e n False sid w =
     (case writeNote e (db w) (queue_path n) c of
              Inl err \<Rightarrow> (Inl err, w)
            | Inr d1 \<Rightarrow>
                (case deleteNote e d1 (n_path n) of
                   Inl err \<Rightarrow> (Inl err, w\<lparr>db := d1\<rparr>)
                 | Inr d2 \<Rightarrow>
                     (Inr (queued_detail n (queue_path n) False),
                      w\<lparr>db := d2,
                         history := trackOperation e sid
                           \<lparr>op_action = ''queue'', originalPath = n_path n, targetPath = queue_path n,
                            timestamp = now e, originalContent = n_content n,
                            newContent = c\<rparr> (history w)\<rparr>)))"
    by (simp only: queueForReview_def Let_def if_False queue_path_def c_def)
  from ok writeNote_ok [of e "queue_path n" "db w" c] obtain d1 where
    w1: "writeNote e (db w) (queue_path n) c = Inr d1" by blast
  from writeNote_dom [OF w1] there have "map_of d1 (pathToId (n_path n)) \<noteq> None" by auto
  with ok deleteNote_ok [of e "n_path n" d1] obtain d2 where
    d2: "deleteNote e d1 (n_path n) = Inr d2" by blast
  from eq w1 d2 False show ?thesis by simp
qed

lemma low_confidence_outcome:
  assumes low: "low_confidence n mc"
  shows "d_path (detail_of n (fst (fileNote e n mc dry sid w))) = n_path n
         \<and> d_action (detail_of n (fst (fileNote e n mc dry sid w))) \<noteq> ''filed''
         \<and> (d_action (detail_of n (fst (fileNote e n mc dry sid w))) = ''queued''
            \<or> d_action (detail_of n (fst (fileNote e n mc dry sid w))) = ''failed'')"
proof -
  obtain r w1 where step: "fileNote e n mc dry sid w = (r, w1)" by (cases "fileNote e n mc dry sid w")
  show ?thesis
  proof (cases r)
    case (Inl err)
    with step show ?thesis by (simp add: detail_of_def)
  next
    case (Inr det)
    from fileNote_result_action [OF step [unfolded Inr]] low step Inr show ?thesis
      by (simp add: detail_of_def)
  qed
qed

lemma fileNotes_outcomes:
  assumes "getProcessedInboxNotes e (db w) = Inr nts"
  shows "\<exists>res. fst (fileNotes e opts w) = Inr res
           \<and> r_details res = map2 detail_of (slice_to (limit_of opts) nts)
                 (outcomes e (threshold_of opts) (dry_run_of opts) (session_id_of e opts)
                    (slice_to (limit_of opts) nts) w)
           \<and> r_processed res = length (slice_to (limit_of opts) nts)
           \<and> r_failed res = length (filter threw
                 (outcomes e (threshold_of opts) (dry_run_of opts) (session_id_of e opts)
                    (slice_to (limit_of opts) nts) w))
           \<and> r_filed res + r_queued res = length (filter (\<lambda>r. \<not> threw r)
                 (outcomes e (threshold_of opts) (dry_run_of opts) (session_id_of e opts)
                    (slice_to (limit_of opts) nts) w))"
proof -
  obtain r w1 where f: "fileNotes e opts w = (r, w1)" by (cases "fileNotes e opts w")
  from f show ?thesis
  proof (cases rule: fileNotes_cases)
    case (enumeration err)
    with assms show ?thesis by simp
  next
    case nothing
    note nn = this
    with assms have "nts = []" by simp
    moreover have "slice_to (limit_of opts) ([] :: inbox_note list) = []"
      using slice_to_take [of "limit_of opts" "[] :: inbox_note list"] by auto
    ultimately show ?thesis using f nn(2) by (simp add: empty_result_def)
  next
    case (batch nts' res)
    with assms have "nts' = nts" by simp
    with batch(4) have l: "file_loop e (threshold_of opts) (dry_run_of opts) (session_id_of e opts)
         (slice_to (limit_of opts) nts) (empty_result e opts) w = (res, w1)" by simp
    from file_loop_outcomes [OF l] f batch(3) show ?thesis
      by (simp add: empty_result_def)
  qed
qed


text \<open>
  Claim C3. A processed note whose confidence is below the threshold is never reported as
  filed: its detail is \<open>queued\<close>, or \<open>failed\<close> when queuing it threw. When the store answers
  every request it is \<open>queued\<close>.
\<close>

theorem low_confidence_is_queued:
  assumes run: "fileNotes e opts w = (Inr res, w1)"
    and nts: "getProcessedInboxNotes e (db w) = Inr nts"
    and i: "i < length (r_details res)"
    and low: "low_confidence (nts ! i) (threshold_of opts)"
  shows "d_path (r_details res ! i) = n_path (nts ! i)
         \<and> d_action (r_details res ! i) \<noteq> ''filed''
         \<and> (d_action (r_details res ! i) = ''queued'' \<or> d_action (r_details res ! i) = ''failed'')
         \<and> (wf_db (db w) \<and> (\<forall>k. \<not> get_fails e k \<and> \<not> insert_fails e k)
               \<longrightarrow> d_action (r_details res ! i) = ''queued'')"
proof -
  let ?ns = "slice_to (limit_of opts) nts"
  let ?mc = "threshold_of opts"
  let ?dry = "dry_run_of opts"
  let ?sid = "session_id_of e opts"
  let ?rs = "outcomes e ?mc ?dry ?sid ?ns w"
  from fileNotes_outcomes [OF nts, of opts] run
  have dets: "r_details res = map2 detail_of ?ns ?rs" by auto
  with i have ilen: "i < length ?ns" by simp
  obtain k where k: "?ns = take k nts" using slice_to_take by blast
  from ilen have ni: "?ns ! i = nts ! i" and iin: "nts ! i \<in> set nts"
    unfolding k by auto
  from dets ilen have di: "r_details res ! i = detail_of (nts ! i) (?rs ! i)"
    by (simp add: ni)
  from outcomes_nth [OF ilen, of e ?mc ?dry ?sid w] obtain wi where
    wi: "?rs ! i = fst (fileNote e (nts ! i) ?mc ?dry ?sid wi)"
    "dom (map_of (db w)) \<subseteq> dom (map_of (db wi))"
    by (auto simp: ni)
  from low_confidence_outcome [OF low, of e ?dry ?sid wi]
  have part1: "d_path (r_details res ! i) = n_path (nts ! i)
         \<and> d_action (r_details res ! i) \<noteq> ''filed''
         \<and> (d_action (r_details res ! i) = ''queued'' \<or> d_action (r_details res ! i) = ''failed'')"
    unfolding di wi(1) .
  have part2: "d_action (r_details res ! i) = ''queued''"
    if wf: "wf_db (db w)" and ok: "\<forall>k. \<not> get_fails e k \<and> \<not> insert_fails e k"
  proof -
    from processed_notes [OF nts wf] iin obtain x where
      x: "map_of (db w) (pathToId (n_path (nts ! i))) = Some x" "js_truthy (suggestions_of (nts ! i))"
      by blast
    from x(2) have sug: "suggestions_of (nts ! i) \<noteq> Undefined" "suggestions_of (nts ! i) \<noteq> Null"
      by auto
    from x(1) wi(2) have there: "pathToId (n_path (nts ! i)) \<in> dom (map_of (db wi))" by auto
    from fileNote_low [OF low sug, of e ?dry ?sid wi] queueForReview_succeeds [OF ok there, of ?dry ?sid]
    have "fst (fileNote e (nts ! i) ?mc ?dry ?sid wi) = Inr (queued_detail (nts ! i) (queue_path (nts ! i)) ?dry)"
      by simp
    then show ?thesis unfolding di wi(1) by (simp add: detail_of_def)
  qed
  from part1 part2 show ?thesis by blast
qed

subsection \<open>Dry runs\<close>

lemma fileNote_dry_world:
  assumes "fileNote e n mc True sid w = (r, w1)"
  shows "w1 = w"
  using assms by (cases rule: fileNote_cases) auto

lemma file_loop_dry_world:
  "file_loop e mc True sid ns res w = (res', w') \<Longrightarrow> w' = w"
proof (induction ns arbitrary: res)
  case Nil
  then show ?case by simp
next
  case (Cons n ns)
  obtain r w1 where step: "fileNote e n mc True sid w = (r, w1)" by (cases "fileNote e n mc True sid w")
  from fileNote_dry_world [OF step] have w1: "w1 = w" .
  show ?case
  proof (cases r)
    case (Inl err)
    with Cons.prems step w1 show ?thesis by (auto dest: Cons.IH)
  next
    case (Inr det)
    with Cons.prems step w1 show ?thesis by (auto dest: Cons.IH)
  qed
qed

lemma fileNotes_dry_world:
  assumes "dry_run_of opts"
  shows "snd (fileNotes e opts w) = w"
proof -
  obtain r w1 where f: "fileNotes e opts w = (r, w1)" by (cases "fileNotes e opts w")
  from f have "w1 = w"
  proof (cases rule: fileNotes_cases)
    case (batch nts res)
    with assms show ?thesis by (auto dest: file_loop_dry_world)
  qed simp_all
  with f show ?thesis by simp
qed

lemma readNote_env:
  "get_fails e2 = get_fails e \<Longrightarrow> notFoundMessage e2 = notFoundMessage e \<Longrightarrow> readNote e2 d p = readNote e d p"
  by (simp add: readNote_def db_get_def split: option.splits)

lemma buildUpdatedNote_error_env:
  "(buildUpdatedNote e2 n s = Inl err) = (buildUpdatedNote e n s = Inl err)"
  by (auto simp: buildUpdatedNote_def Let_def split: jsval.splits sum.splits if_splits)

lemma fileNote_dry_env:
  assumes g: "get_fails e2 = get_fails e" "notFoundMessage e2 = notFoundMessage e"
  shows "fst (fileNote e2 n mc True sid2 w) = fst (fileNote e n mc True sid w)"
proof (cases "suggestions_of n = Undefined \<or> suggestions_of n = Null")
  case True
  then show ?thesis by (auto simp: fileNote_def suggestions_of_def)
next
  case False
  note sug = this
  show ?thesis
  proof (cases "parseConfidence (get_prop (suggestions_of n) ''confidence'')")
    case (Inl err)
    with sug show ?thesis by (auto simp: fileNote_def suggestions_of_def)
  next
    case (Inr cf)
    note conf = this
    show ?thesis
    proof (cases "js_lt cf mc")
      case True
      with conf have low: "low_confidence n mc" by (simp add: low_confidence_def)
      from sug have s: "suggestions_of n \<noteq> Undefined" "suggestions_of n \<noteq> Null" by simp_all
      show ?thesis
        by (simp add: fileNote_low [OF low s] queueForReview_dry)
    next
      case False
      note high = this
      show ?thesis
      proof (cases "learning w")
        case (Inl err)
        with sug conf high show ?thesis
          unfolding suggestions_of_def by (simp add: fileNote_def Let_def)
      next
        case (Inr fps)
        note learn = this
        let ?tf = "if js_truthy (getFolderHints fps (n_body n)) then getFolderHints fps (n_body n)
                   else get_prop (suggestions_of n) ''folder''"
        have eq: "fst (fileNote e' n mc True sid' w) =
            (case path_join ?tf (Str (basename (n_path n))) of
               Inl err \<Rightarrow> Inl err
             | Inr tp \<Rightarrow>
                 (case resolveCollision e' (db w) tp True of
                    Inl err \<Rightarrow> Inl err
                  | Inr finalPath \<Rightarrow>
                      (case buildUpdatedNote e' n (suggestions_of n) of
                         Inl err \<Rightarrow> Inl err
                       | Inr updatedNote \<Rightarrow> Inr (filed_detail n (suggestions_of n) finalPath True))))"
          for e' sid'
          using sug conf high learn unfolding suggestions_of_def
          by (simp add: fileNote_def Let_def split: sum.splits split del: if_split)
        have rc: "resolveCollision e2 (db w) tp True = resolveCollision e (db w) tp True" for tp
          by (simp add: resolveCollision_def readNote_env [OF g])
        show ?thesis
        proof (cases "buildUpdatedNote e n (suggestions_of n)")
          case (Inl err)
          with buildUpdatedNote_error_env [of e2 n "suggestions_of n" err e]
          have "buildUpdatedNote e2 n (suggestions_of n) = Inl err" by simp
          with Inl show ?thesis by (simp add: eq rc split: sum.splits)
        next
          case (Inr c)
          with buildUpdatedNote_error_env [of e2 n "suggestions_of n" _ e]
          obtain c2 where "buildUpdatedNote e2 n (suggestions_of n) = Inr c2"
            by (cases "buildUpdatedNote e2 n (suggestions_of n)") auto
          with Inr show ?thesis by (simp add: eq rc split: sum.splits)
        qed
      qed
    qed
  qed
qed

lemma outcomes_dry_env:
  assumes g: "get_fails e2 = get_fails e" "notFoundMessage e2 = notFoundMessage e"
  shows "outcomes e2 mc True sid2 ns w = outcomes e mc True sid ns w"
proof (induction ns)
  case Nil
  then show ?case by simp
next
  case (Cons n ns)
  have a: "snd (fileNote e2 n mc True sid2 w) = w" "snd (fileNote e n mc True sid w) = w"
    using fileNote_dry_world [of e2 n mc sid2 w] fileNote_dry_world [of e n mc sid w]
    by (metis prod.collapse)+
  show ?case
    by (simp add: a Cons.IH fileNote_dry_env [OF g])
qed

lemma read_processed_env:
  assumes "get_fails e2 = get_fails e" "notFoundMessage e2 = notFoundMessage e"
    "parseFrontmatter e2 = parseFrontmatter e"
  shows "read_processed e2 d ps = read_processed e d ps"
  by (induction ps) (simp_all add: readNote_env [OF assms(1,2)] assms(3) split: sum.splits option.splits)

lemma getProcessedInboxNotes_later:
  "getProcessedInboxNotes (e\<lparr>now := t, randomHex := x\<rparr>) d = getProcessedInboxNotes e d"
  by (simp add: getProcessedInboxNotes_def listNotes_def read_processed_env [of "e\<lparr>now := t, randomHex := x\<rparr>" e])

text \<open>
  Claim C4. A dry run leaves the database, the history and the learning data as they
  were, and a second dry run of the same batch, at another time, reports the same details
  (or fails with the same message).
\<close>

theorem dry_run_changes_nothing:
  assumes "dry_run_of opts"
  shows "snd (fileNotes e opts w) = w
         \<and> map_sum message r_details
             (fst (fileNotes (e\<lparr>now := t, randomHex := x\<rparr>) opts (snd (fileNotes e opts w))))
           = map_sum message r_details (fst (fileNotes e opts w))"
proof -
  let ?e2 = "e\<lparr>now := t, randomHex := x\<rparr>"
  have same: "snd (fileNotes e opts w) = w" by (rule fileNotes_dry_world [OF assms])
  have "map_sum message r_details (fst (fileNotes ?e2 opts w)) = map_sum message r_details (fst (fileNotes e opts w))"
  proof (cases "getProcessedInboxNotes e (db w)")
    case (Inl err)
    then show ?thesis by (simp add: fileNotes_unfold getProcessedInboxNotes_later)
  next
    case (Inr nts)
    then have i2: "getProcessedInboxNotes ?e2 (db w) = Inr nts" by (simp add: getProcessedInboxNotes_later)
    from fileNotes_outcomes [OF Inr, of opts] obtain res where
      r1: "fst (fileNotes e opts w) = Inr res"
      "r_details res = map2 detail_of (slice_to (limit_of opts) nts)
                 (outcomes e (threshold_of opts) (dry_run_of opts) (session_id_of e opts)
                    (slice_to (limit_of opts) nts) w)" by blast
    from fileNotes_outcomes [OF i2, of opts] obtain res2 where
      r2: "fst (fileNotes ?e2 opts w) = Inr res2"
      "r_details res2 = map2 detail_of (slice_to (limit_of opts) nts)
                 (outcomes ?e2 (threshold_of opts) (dry_run_of opts) (session_id_of ?e2 opts)
                    (slice_to (limit_of opts) nts) w)" by blast
    have "outcomes ?e2 (threshold_of opts) True (session_id_of ?e2 opts) (slice_to (limit_of opts) nts) w
          = outcomes e (threshold_of opts) True (session_id_of e opts) (slice_to (limit_of opts) nts) w"
      by (rule outcomes_dry_env) simp_all
    with r1 r2 assms show ?thesis by simp
  qed
  with same show ?thesis by simp
qed

subsection \<open>Collisions\<close>

lemma collision_loop_first_free:
  "1 \<le> c \<Longrightarrow> c \<le> 100 \<Longrightarrow>
   collision_loop e d tp f c = first_free e d tp (f # map (suffixed tp) [c..<100])"
proof (induction e d tp f c rule: collision_loop.induct)
  case (1 e d tp finalPath counter)
  show ?case
  proof (cases "readNote e d finalPath")
    case (Inl err)
    then show ?thesis by (simp add: collision_loop.simps [of e d tp finalPath counter])
  next
    case (Inr ro)
    show ?thesis
    proof (cases ro)
      case None
      with Inr show ?thesis by (simp add: collision_loop.simps [of e d tp finalPath counter])
    next
      case (Some existing)
      show ?thesis
      proof (cases "counter + 1 > 100")
        case True
        with "1.prems" have c: "counter = 100" by simp
        from Inr Some True have "collision_loop e d tp finalPath counter
            = Inl (Error (''Too many collisions for '' @ tp))"
          by (simp add: collision_loop.simps [of e d tp finalPath counter])
        with Inr Some c show ?thesis by simp
      next
        case False
        with "1.prems" have lt: "counter < 100" by simp
        then have upt: "[counter..<100] = counter # [counter + 1..<100]"
          by (simp add: upt_conv_Cons)
        from "1.IH" [OF Inr Some False] "1.prems" lt
        have "collision_loop e d tp (suffixed tp counter) (counter + 1)
              = first_free e d tp (suffixed tp counter # map (suffixed tp) [counter + 1..<100])"
          by simp
        with Inr Some False show ?thesis
          by (simp add: collision_loop.simps [of e d tp finalPath counter] upt del: upt.simps)
      qed
    qed
  qed
qed

lemma first_free_all_taken:
  "\<forall>p \<in> set ps. \<exists>x. readNote e d p = Inr (Some x) \<Longrightarrow>
   first_free e d tp ps = Inl (Error (''Too many collisions for '' @ tp))"
  by (induction ps) auto

lemma filed_target_taken:
  assumes "fileNote e n mc False sid w = (Inr det, w1)" "d_action det = ''filed''" "d_targetPath det = Some tp"
  shows "\<exists>x. readNote e (db w1) tp = Inr (Some x)"
  using assms(1)
proof (cases rule: fileNote_cases)
  case (queued c d1 d2)
  with assms(2) show ?thesis by simp
next
  case (filed fp c d1 d2)
  with assms(3) have fp: "fp = tp" by simp
  from filed(4) have nofail: "\<not> get_fails e (pathToId tp)"
    by (auto simp: fp readNote_def db_get_def split: if_splits)
  from writeNote_map [OF filed(5)] have
    m1: "map_of d1 (pathToId tp) = Some \<lparr>doc_path = tp, doc_content = sanitizeUnicode c,
            doc_deleted = False, doc_encrypted = False\<rparr>" by (simp add: fp)
  from deleteNote_map [OF filed(6)] obtain y where
    y: "map_of d1 (pathToId (n_path n)) = Some y"
    "map_of d2 = (map_of d1)(pathToId (n_path n) \<mapsto> y\<lparr>doc_deleted := True, doc_content := []\<rparr>)"
    by blast
  have "\<exists>z. map_of d2 (pathToId tp) = Some z \<and> \<not> doc_encrypted z"
  proof (cases "pathToId (n_path n) = pathToId tp")
    case True
    with y m1 show ?thesis by auto
  next
    case False
    with y m1 show ?thesis by auto
  qed
  then obtain z where "map_of d2 (pathToId tp) = Some z" "\<not> doc_encrypted z" by blast
  with nofail filed(7) show ?thesis
    by (simp add: readNote_def db_get_def)
qed simp_all

lemma fileNote_confident:
  assumes "confident n mc"
  shows "fileNote e n mc dry sid w =
     (case target_of w n of
        Inl err \<Rightarrow> (Inl err, w)
      | Inr tp \<Rightarrow>
          (case resolveCollision e (db w) tp dry of
             Inl err \<Rightarrow> (Inl err, w)
           | Inr finalPath \<Rightarrow>
               (case buildUpdatedNote e n (suggestions_of n) of
                  Inl err \<Rightarrow> (Inl err, w)
                | Inr updatedNote \<Rightarrow>
                    if dry then (Inr (filed_detail n (suggestions_of n) finalPath True), w)
                    else
                      (case writeNote e (db w) finalPath updatedNote of
                         Inl err \<Rightarrow> (Inl err, w)
                       | Inr d1 \<Rightarrow>
                           (case deleteNote e d1 (n_path n) of
                              Inl err \<Rightarrow> (Inl err, w\<lparr>db := d1\<rparr>)
                            | Inr d2 \<Rightarrow>
                                (Inr (filed_detail n (suggestions_of n) finalPath False),
                                 w\<lparr>db := d2,
                                    history := trackOperation e sid
                                      \<lparr>op_action = ''file'', originalPath = n_path n,
                                       targetPath = finalPath, timestamp = now e,
                                       originalContent = n_content n,
                                       newContent = updatedNote\<rparr> (history w)\<rparr>))))))"
proof -
  from assms obtain cf where sug: "suggestions_of n \<noteq> Undefined" "suggestions_of n \<noteq> Null"
    and conf: "parseConfidence (get_prop (suggestions_of n) ''confidence'') = Inr cf"
    and high: "\<not> js_lt cf mc"
    by (auto simp: confident_def split: sum.splits)
  show ?thesis
  proof (cases "learning w")
    case (Inl err)
    with sug conf high show ?thesis
      unfolding target_of_def suggestions_of_def
      by (simp add: fileNote_def Let_def split del: if_split)
  next
    case (Inr fps)
    with sug conf high show ?thesis
      unfolding target_of_def suggestions_of_def
      by (simp add: fileNote_def Let_def split del: if_split)
  qed
qed

lemma filed_is_confident:
  assumes "fileNote e n mc dry sid w = (Inr det, w1)" "d_action det = ''filed''"
  shows "confident n mc"
proof (cases "suggestions_of n = Undefined \<or> suggestions_of n = Null")
  case True
  with assms(1) show ?thesis by (auto simp: fileNote_def suggestions_of_def)
next
  case False
  note sug = this
  show ?thesis
  proof (cases "parseConfidence (get_prop (suggestions_of n) ''confidence'')")
    case (Inl err)
    with assms(1) sug show ?thesis by (auto simp: fileNote_def suggestions_of_def)
  next
    case (Inr cf)
    from fileNote_result_action [OF assms(1)] assms(2)
    have "\<not> low_confidence n mc" by auto
    with Inr sug show ?thesis by (simp add: confident_def low_confidence_def)
  qed
qed

lemma filed_target:
  assumes run: "fileNote e n mc False sid w = (Inr det, w1)" and filed: "d_action det = ''filed''"
  shows "\<exists>tp fp. target_of w n = Inr tp \<and> resolveCollision e (db w) tp False = Inr fp
           \<and> d_targetPath det = Some fp"
proof -
  from filed_is_confident [OF run filed] have c: "confident n mc" .
  from run show ?thesis
    unfolding fileNote_confident [OF c]
    by (auto split: sum.splits simp: filed_detail_def)
qed

text \<open>
  Claim C6. Outside a dry run the path for a target is the first free one of the target
  itself and its variants with the suffixes \<open>-1\<close>, ..., \<open>-99\<close>, tried in this order, which
  makes 100 attempts. When all of them are taken, the note fails with the collision error
  and leaves the state as it was, and the loop counts the failure and goes on with the
  next note. A filed note gets the first free path of its target, and that path is taken
  afterwards: when a note was filed at its target itself, the next note with the same
  target is filed at the \<open>-1\<close> variant if that is free.
\<close>

theorem collisions_resolved_in_order:
  "resolveCollision e d tp False = first_free e d tp (candidates tp)
   \<and> length (candidates tp) = 100
   \<and> ((\<forall>p \<in> set (candidates tp). \<exists>x. readNote e d p = Inr (Some x)) \<longrightarrow>
         resolveCollision e d tp False = Inl (Error (''Too many collisions for '' @ tp)))
   \<and> (confident n mc \<and> target_of w n = Inr tp
        \<and> (\<forall>p \<in> set (candidates tp). \<exists>x. readNote e (db w) p = Inr (Some x)) \<longrightarrow>
         fileNote e n mc False sid w = (Inl (Error (''Too many collisions for '' @ tp)), w)
         \<and> file_loop e mc False sid (n # ns) res w =
             file_loop e mc False sid ns
               (res\<lparr>r_processed := r_processed res + 1, r_failed := r_failed res + 1,
                    r_details := r_details res @ [failed_detail n (Error (''Too many collisions for '' @ tp))]\<rparr>) w)
   \<and> (fileNote e n1 mc1 False sid1 w1 = (Inr det1, w2) \<and> d_action det1 = ''filed'' \<longrightarrow>
         (\<exists>tp1 fp1. target_of w1 n1 = Inr tp1 \<and> first_free e (db w1) tp1 (candidates tp1) = Inr fp1
            \<and> d_targetPath det1 = Some fp1 \<and> (\<exists>x. readNote e (db w2) fp1 = Inr (Some x))))
   \<and> (fileNote e n1 mc1 False sid1 w1 = (Inr det1, w2) \<and> d_action det1 = ''filed''
        \<and> d_targetPath det1 = Some tp1
        \<and> fileNote e n2 mc2 False sid2 w2 = (Inr det2, w3) \<and> d_action det2 = ''filed''
        \<and> target_of w2 n2 = Inr tp1 \<and> readNote e (db w2) (suffixed tp1 1) = Inr None \<longrightarrow>
         d_targetPath det2 = Some (suffixed tp1 1))"
proof -
  have a: "resolveCollision e d tp False = first_free e d tp (candidates tp)" for d tp
    by (simp add: resolveCollision_def candidates_def collision_loop_first_free)
  have b: "length (candidates tp) = 100" by (simp add: candidates_def)
  have c: "resolveCollision e d tp False = Inl (Error (''Too many collisions for '' @ tp))"
    if "\<forall>p \<in> set (candidates tp). \<exists>x. readNote e d p = Inr (Some x)" for d
    using first_free_all_taken [OF that] by (simp add: a)
  have l: "fileNote e n mc False sid w = (Inl (Error (''Too many collisions for '' @ tp)), w)
         \<and> file_loop e mc False sid (n # ns) res w =
             file_loop e mc False sid ns
               (res\<lparr>r_processed := r_processed res + 1, r_failed := r_failed res + 1,
                    r_details := r_details res @ [failed_detail n (Error (''Too many collisions for '' @ tp))]\<rparr>) w"
    if "confident n mc \<and> target_of w n = Inr tp
        \<and> (\<forall>p \<in> set (candidates tp). \<exists>x. readNote e (db w) p = Inr (Some x))"
  proof -
    from that have conf: "confident n mc" and t: "target_of w n = Inr tp"
      and full: "\<forall>p \<in> set (candidates tp). \<exists>x. readNote e (db w) p = Inr (Some x)" by blast+
    from c [OF full] t
    have f: "fileNote e n mc False sid w = (Inl (Error (''Too many collisions for '' @ tp)), w)"
      by (simp add: fileNote_confident [OF conf])
    then show ?thesis by simp
  qed
  have s1: "\<exists>tp1 fp1. target_of w1 n1 = Inr tp1 \<and> first_free e (db w1) tp1 (candidates tp1) = Inr fp1
            \<and> d_targetPath det1 = Some fp1 \<and> (\<exists>x. readNote e (db w2) fp1 = Inr (Some x))"
    if "fileNote e n1 mc1 False sid1 w1 = (Inr det1, w2) \<and> d_action det1 = ''filed''"
  proof -
    from that have run: "fileNote e n1 mc1 False sid1 w1 = (Inr det1, w2)"
      and filed: "d_action det1 = ''filed''" by blast+
    from filed_target [OF run filed] obtain tp1 fp1 where
      t: "target_of w1 n1 = Inr tp1" "resolveCollision e (db w1) tp1 False = Inr fp1"
         "d_targetPath det1 = Some fp1" by blast
    from filed_target_taken [OF run filed t(3)] t show ?thesis by (simp add: a)
  qed
  have s2: "d_targetPath det2 = Some (suffixed tp1 1)"
    if "fileNote e n1 mc1 False sid1 w1 = (Inr det1, w2) \<and> d_action det1 = ''filed''
        \<and> d_targetPath det1 = Some tp1
        \<and> fileNote e n2 mc2 False sid2 w2 = (Inr det2, w3) \<and> d_action det2 = ''filed''
        \<and> target_of w2 n2 = Inr tp1 \<and> readNote e (db w2) (suffixed tp1 1) = Inr None"
  proof -
    from that have run1: "fileNote e n1 mc1 False sid1 w1 = (Inr det1, w2)"
      and filed1: "d_action det1 = ''filed''" and at1: "d_targetPath det1 = Some tp1"
      and run2: "fileNote e n2 mc2 False sid2 w2 = (Inr det2, w3)"
      and filed2: "d_action det2 = ''filed''" and t2: "target_of w2 n2 = Inr tp1"
      and free: "readNote e (db w2) (suffixed tp1 1) = Inr None" by blast+
    from filed_target_taken [OF run1 filed1 at1] obtain x where
      taken: "readNote e (db w2) tp1 = Inr (Some x)" by blast
    have "[1..<100] = 1 # [2..<100]" by (simp add: upt_conv_Cons)
    with taken free have "first_free e (db w2) tp1 (candidates tp1) = Inr (suffixed tp1 1)"
      by (simp add: candidates_def del: upt.simps)
    then have r: "resolveCollision e (db w2) tp1 False = Inr (suffixed tp1 1)" by (simp add: a)
    from filed_target [OF run2 filed2] t2 r show ?thesis by auto
  qed
  show ?thesis
    apply (intro conjI)
    subgoal by (rule a)
    subgoal by (rule b)
    subgoal using c by blast
    subgoal using l by blast
    subgoal using s1 by blast
    subgoal using s2 by blast
    done
qed

subsection \<open>The codec\<close>

text \<open>The bound that \<open>parseFrontmatter\<close> gives to the loop over the lines is never
  reached: the loop returns, with an index that is not below the one it started from.\<close>

lemma parseYamlBlock_fuel:
  "length lines - i < fuel \<Longrightarrow>
   \<exists>r. parseYamlBlock fuel lines i b result = Some r \<and> (\<forall>res j. r = Inr (res, j) \<longrightarrow> i \<le> j)"
proof (induction fuel arbitrary: i b result)
  case 0
  then show ?case by simp
next
  case (Suc fuel)
  show ?case
  proof (cases "i < length lines")
    case False
    then show ?thesis by simp
  next
    case True
    with Suc.prems have next_ok: "length lines - (i + 1) < fuel" by simp
    let ?line = "lines ! i"
    show ?thesis
    proof (cases "getIndentLevel ?line < b \<and> trim ?line \<noteq> []")
      case True
      with \<open>i < length lines\<close> show ?thesis by (simp add: Let_def)
    next
      case False
      note cont = this
      show ?thesis
      proof (cases "trim ?line = [] \<or> hd (trim ?line) = CHR ''#''")
        case True
        from Suc.IH [OF next_ok, of b result] obtain r where
          "parseYamlBlock fuel lines (i + 1) b result = Some r" "\<forall>res j. r = Inr (res, j) \<longrightarrow> i + 1 \<le> j"
          by blast
        with True cont \<open>i < length lines\<close> show ?thesis by (auto simp: Let_def)
      next
        case False
        note nocomment = this
        show ?thesis
        proof (cases "match_key_value ?line")
          case None
          from Suc.IH [OF next_ok, of b result] obtain r where
            "parseYamlBlock fuel lines (i + 1) b result = Some r" "\<forall>res j. r = Inr (res, j) \<longrightarrow> i + 1 \<le> j"
            by blast
          with None nocomment cont \<open>i < length lines\<close> show ?thesis by (auto simp: Let_def)
        next
          case (Some kv)
          obtain key v where kv: "kv = (key, v)" by (cases kv)
          let ?nested = "v = [] \<and> i + 1 < length lines \<and> lines ! (i + 1) \<noteq> []
                           \<and> getIndentLevel (lines ! (i + 1)) > getIndentLevel ?line"
          show ?thesis
          proof (cases ?nested)
            case True
            from Suc.IH [OF next_ok, of "getIndentLevel (lines ! (i + 1))" "[]"] obtain r where
              r: "parseYamlBlock fuel lines (i + 1) (getIndentLevel (lines ! (i + 1))) [] = Some r"
              "\<forall>res j. r = Inr (res, j) \<longrightarrow> i + 1 \<le> j"
              by blast
            show ?thesis
            proof (cases r)
              case (Inl err)
              with r True Some kv nocomment cont \<open>i < length lines\<close> show ?thesis
                by (simp add: Let_def)
            next
              case (Inr p)
              obtain nested j where p: "p = (nested, j)" by (cases p)
              with r Inr have j: "i + 1 \<le> j" by simp
              with next_ok have "length lines - j < fuel" by simp
              from Suc.IH [OF this, of b "if key = ''__proto__'' then result else alist_update key (Obj nested) result"]
              obtain r2 where r2: "parseYamlBlock fuel lines j b
                  (if key = ''__proto__'' then result else alist_update key (Obj nested) result) = Some r2"
                "\<forall>res j'. r2 = Inr (res, j') \<longrightarrow> j \<le> j'" by blast
              from r2(2) j have "\<forall>res j'. r2 = Inr (res, j') \<longrightarrow> i \<le> j'" by auto
              with r(1) r2(1) Inr p True Some kv nocomment cont \<open>i < length lines\<close> show ?thesis
                by (simp add: Let_def)
            qed
          next
            case False
            show ?thesis
            proof (cases "parseYamlValue v")
              case (Inl err)
              with False Some kv nocomment cont \<open>i < length lines\<close> show ?thesis
                by (auto simp: Let_def)
            next
              case (Inr x)
              from Suc.IH [OF next_ok, of b "if key = ''__proto__'' then result else alist_update key x result"]
              obtain r where "parseYamlBlock fuel lines (i + 1) b
                  (if key = ''__proto__'' then result else alist_update key x result) = Some r"
                "\<forall>res j. r = Inr (res, j) \<longrightarrow> i + 1 \<le> j" by blast
              with Inr False Some kv nocomment cont \<open>i < length lines\<close> show ?thesis
                by (auto simp: Let_def)
            qed
          qed
        qed
      qed
    qed
  qed
qed

lemma parseFrontmatter_impl_fuel:
  assumes "find (\<lambda>i. is_closing_delimiter (lines ! i)) [1..<length lines] = Some endIndex"
  shows "parseYamlBlock endIndex (take (endIndex - 1) (drop 1 lines)) 0 0 [] \<noteq> None"
proof -
  from assms have "endIndex \<in> set [1..<length lines]"
    by (auto simp: find_Some_iff)
  then have "length (take (endIndex - 1) (drop 1 lines)) - 0 < endIndex" by auto
  from parseYamlBlock_fuel [OF this, of 0 "[]"] show ?thesis by auto
qed

subsection \<open>The properties on the example states\<close>

lemma inbox_world_notes:
  "getProcessedInboxNotes example_env (db inbox_world) = Inr inbox_notes"
  by code_simp

lemma inbox_world_batch:
  "map_sum id (\<lambda>r. (r_sessionId r, map (\<lambda>d. (d_path d, d_action d, d_targetPath d)) (r_details r)))
     (fst (fileNotes example_env session_options inbox_world))
   = Inr (''s1'', [(''inbox/a.md'', ''filed'', Some ''projects/a.md''),
                   (''inbox/bad.md'', ''failed'', None),
                   (''inbox/low.md'', ''queued'', Some ''inbox/review-queue/low.md''),
                   (''inbox/sub/a.md'', ''filed'', Some ''projects/a-1.md'')])"
  by code_simp

theorem dry_run_changes_nothing_witness:
  "dry_run_of preview_options
   \<and> snd (fileNotes example_env preview_options inbox_world) = inbox_world
   \<and> map_sum message r_details
        (fst (fileNotes (example_env\<lparr>now := 2000, randomHex := ''cafe''\<rparr>) preview_options
               (snd (fileNotes example_env preview_options inbox_world))))
      = map_sum message r_details (fst (fileNotes example_env preview_options inbox_world))"
proof -
  have dry: "dry_run_of preview_options" by code_simp
  from dry_run_changes_nothing [OF dry, where e = example_env and w = inbox_world and t = 2000 and x = "''cafe''"] dry
  show ?thesis by blast
qed

text \<open>
  Claim C5, at the failing input: the note \<open>inbox/a.md\<close> has been filed at
  \<open>projects/a.md\<close> in the session \<open>s1\<close> and the session has been undone, after which
  \<open>inbox/a.md\<close> was rewritten by hand and a new note was put at \<open>projects/a.md\<close>. A second
  undo of \<open>s1\<close> is not rejected: it reports the operation as undone, writes the recorded
  content over the rewritten note and deletes the new note. The list of sessions that can
  be undone does leave the session out.
\<close>

theorem second_undo_restores_and_deletes_again:
  "map_option undone (map_of (history edited_world) ''s1'') = Some True
   \<and> getRecentSessions 10 (history edited_world) = []
   \<and> map_option (\<lambda>x. (doc_content x, doc_deleted x)) (map_of (db edited_world) ''inbox/a.md'')
       = Some (''rewritten by hand'', False)
   \<and> map_option (\<lambda>x. (doc_content x, doc_deleted x)) (map_of (db edited_world) ''projects/a.md'')
       = Some (''a new note'', False)
   \<and> map_sum id (\<lambda>r. (u_undone r, u_failed r)) (fst (undoLastFiling example_env ''s1'' edited_world))
       = Inr (1, 0)
   \<and> map_option (\<lambda>x. (doc_content x, doc_deleted x))
        (map_of (db (snd (undoLastFiling example_env ''s1'' edited_world))) ''inbox/a.md'')
       = Some (note_text ''projects'' ''high'' ''first'', False)
   \<and> map_option (\<lambda>x. (doc_content x, doc_deleted x))
        (map_of (db (snd (undoLastFiling example_env ''s1'' edited_world))) ''projects/a.md'')
       = Some ([], True)"
  by code_simp


lemma no_faults_example: "\<not> get_fails example_env k \<and> \<not> insert_fails example_env k"
  by (simp add: example_env_def)


theorem low_confidence_is_queued_witness:
  "\<exists>res w1. fileNotes example_env session_options inbox_world = (Inr res, w1)
     \<and> getProcessedInboxNotes example_env (db inbox_world) = Inr inbox_notes
     \<and> 2 < length (r_details res)
     \<and> low_confidence (inbox_notes ! 2) (threshold_of session_options)
     \<and> wf_db (db inbox_world)
     \<and> n_path (inbox_notes ! 2) = ''inbox/low.md''
     \<and> d_path (r_details res ! 2) = ''inbox/low.md''
     \<and> d_action (r_details res ! 2) = ''queued''"
proof -
  obtain r w1 where run0: "fileNotes example_env session_options inbox_world = (r, w1)"
    by (cases "fileNotes example_env session_options inbox_world")
  with inbox_world_batch obtain res where r: "r = Inr res"
    and dets: "map (\<lambda>d. (d_path d, d_action d, d_targetPath d)) (r_details res)
       = [(''inbox/a.md'', ''filed'', Some ''projects/a.md''),
          (''inbox/bad.md'', ''failed'', None),
          (''inbox/low.md'', ''queued'', Some ''inbox/review-queue/low.md''),
          (''inbox/sub/a.md'', ''filed'', Some ''projects/a-1.md'')]"
    by (cases r) auto
  from run0 r have run: "fileNotes example_env session_options inbox_world = (Inr res, w1)" by simp
  from arg_cong [OF dets, of length] have len: "2 < length (r_details res)" by simp
  have low: "low_confidence (inbox_notes ! 2) (threshold_of session_options)" by code_simp
  have wf: "wf_db (db inbox_world)" by code_simp
  have p: "n_path (inbox_notes ! 2) = ''inbox/low.md''" by code_simp
  from low_confidence_is_queued [OF run inbox_world_notes len low] wf no_faults_example p
  have "d_path (r_details res ! 2) = ''inbox/low.md'' \<and> d_action (r_details res ! 2) = ''queued''"
    by simp
  with run len low wf p inbox_world_notes show ?thesis by blast
qed


lemma map_of_plain_docs:
  "p \<in> set ps \<Longrightarrow> \<exists>x. map_of (map (\<lambda>p. plain_doc p c) ps) (pathToId p) = Some x \<and> \<not> doc_encrypted x"
  by (induction ps) (auto simp: plain_doc_def)

lemma crowded_world_full:
  assumes "p \<in> set (candidates ''projects/a.md'')"
  shows "\<exists>x. readNote example_env (db crowded_world) p = Inr (Some x)"
proof -
  from map_of_plain_docs [OF assms, of "''taken''"]
  have "\<exists>x. map_of (db crowded_world) (pathToId p) = Some x \<and> \<not> doc_encrypted x"
    by (auto simp: crowded_world_def plain_doc_def)
  then show ?thesis
    by (auto simp: readNote_def db_get_def example_env_def)
qed

theorem collisions_resolved_in_order_witness:
  "length (candidates ''projects/a.md'') = 100
   \<and> list_all (\<lambda>p. \<exists>x. readNote example_env (db crowded_world) p = Inr (Some x))
        (candidates ''projects/a.md'')
   \<and> confident (inbox_notes ! 0) (Fin (7 / 10))
   \<and> target_of crowded_world (inbox_notes ! 0) = Inr ''projects/a.md''
   \<and> resolveCollision example_env (db crowded_world) ''projects/a.md'' False
       = Inl (Error ''Too many collisions for projects/a.md'')
   \<and> fileNote example_env (inbox_notes ! 0) (Fin (7 / 10)) False ''s1'' crowded_world
       = (Inl (Error ''Too many collisions for projects/a.md''), crowded_world)
   \<and> (\<exists>det1 w2 det2 w3.
         fileNote example_env (inbox_notes ! 0) (Fin (7 / 10)) False ''s1'' inbox_world = (Inr det1, w2)
         \<and> d_action det1 = ''filed'' \<and> d_targetPath det1 = Some ''projects/a.md''
         \<and> fileNote example_env (inbox_notes ! 3) (Fin (7 / 10)) False ''s1'' w2 = (Inr det2, w3)
         \<and> d_action det2 = ''filed'' \<and> target_of w2 (inbox_notes ! 3) = Inr ''projects/a.md''
         \<and> d_targetPath det2 = Some ''projects/a-1.md'')"
proof -
  let ?step1 = "fileNote example_env (inbox_notes ! 0) (Fin (7 / 10)) False ''s1'' inbox_world"
  let ?step2 = "fileNote example_env (inbox_notes ! 3) (Fin (7 / 10)) False ''s1'' (snd ?step1)"
  have full: "\<forall>p \<in> set (candidates ''projects/a.md''). \<exists>x. readNote example_env (db crowded_world) p = Inr (Some x)"
    using crowded_world_full by blast
  have conf: "confident (inbox_notes ! 0) (Fin (7 / 10))" by code_simp
  have tgt: "target_of crowded_world (inbox_notes ! 0) = Inr ''projects/a.md''" by code_simp
  have s1: "map_sum id (\<lambda>d. (d_action d, d_targetPath d)) (fst ?step1) = Inr (''filed'', Some ''projects/a.md'')"
    by code_simp
  have s2: "map_sum id d_action (fst ?step2) = Inr ''filed''" by code_simp
  have t2: "target_of (snd ?step1) (inbox_notes ! 3) = Inr ''projects/a.md''" by code_simp
  have free: "readNote example_env (db (snd ?step1)) (suffixed ''projects/a.md'' 1) = Inr None" by code_simp
  have suf: "suffixed ''projects/a.md'' 1 = ''projects/a-1.md''" by code_simp
  obtain r1 w2 where st1: "?step1 = (r1, w2)" by (cases ?step1)
  with s1 obtain det1 where r1: "r1 = Inr det1" and det1: "d_action det1 = ''filed''"
    "d_targetPath det1 = Some ''projects/a.md''" by (cases r1) auto
  obtain r2 w3 where st2: "fileNote example_env (inbox_notes ! 3) (Fin (7 / 10)) False ''s1'' w2 = (r2, w3)"
    by (cases "fileNote example_env (inbox_notes ! 3) (Fin (7 / 10)) False ''s1'' w2")
  with s2 st1 obtain det2 where r2: "r2 = Inr det2" and det2: "d_action det2 = ''filed''"
    by (cases r2) auto
  note T = collisions_resolved_in_order [where e = example_env and d = "db crowded_world"
      and tp = "''projects/a.md''" and n = "inbox_notes ! 0" and mc = "Fin (7 / 10)"
      and w = crowded_world and sid = "''s1''" and ns = "[]"
      and res = "empty_result example_env session_options"
      and ?n1.0 = "inbox_notes ! 0" and ?mc1.0 = "Fin (7 / 10)" and ?sid1.0 = "''s1''"
      and ?w1.0 = inbox_world and ?det1.0 = det1 and ?w2.0 = w2 and ?tp1.0 = "''projects/a.md''"
      and ?n2.0 = "inbox_notes ! 3" and ?mc2.0 = "Fin (7 / 10)" and ?sid2.0 = "''s1''"
      and ?det2.0 = det2 and ?w3.0 = w3, simplified append.simps]
  from T have len: "length (candidates ''projects/a.md'') = 100" by blast
  from T full have exhausted: "resolveCollision example_env (db crowded_world) ''projects/a.md'' False
       = Inl (Error ''Too many collisions for projects/a.md'')" by blast
  from T conf tgt full have fails: "fileNote example_env (inbox_notes ! 0) (Fin (7 / 10)) False ''s1'' crowded_world
       = (Inl (Error ''Too many collisions for projects/a.md''), crowded_world)" by blast
  from st1 r1 have run1: "fileNote example_env (inbox_notes ! 0) (Fin (7 / 10)) False ''s1'' inbox_world = (Inr det1, w2)"
    by simp
  from st2 r2 have run2: "fileNote example_env (inbox_notes ! 3) (Fin (7 / 10)) False ''s1'' w2 = (Inr det2, w3)"
    by simp
  from t2 st1 have t2': "target_of w2 (inbox_notes ! 3) = Inr ''projects/a.md''" by simp
  from free st1 have free': "readNote example_env (db w2) (suffixed ''projects/a.md'' 1) = Inr None" by simp
  from T run1 det1 run2 det2 t2' free' have "d_targetPath det2 = Some (suffixed ''projects/a.md'' 1)"
    by blast
  with suf have second: "d_targetPath det2 = Some ''projects/a-1.md''" by simp
  from run1 det1 run2 det2 t2' second
  have seq: "\<exists>det1 w2 det2 w3.
         fileNote example_env (inbox_notes ! 0) (Fin (7 / 10)) False ''s1'' inbox_world = (Inr det1, w2)
         \<and> d_action det1 = ''filed'' \<and> d_targetPath det1 = Some ''projects/a.md''
         \<and> fileNote example_env (inbox_notes ! 3) (Fin (7 / 10)) False ''s1'' w2 = (Inr det2, w3)
         \<and> d_action det2 = ''filed'' \<and> target_of w2 (inbox_notes ! 3) = Inr ''projects/a.md''
         \<and> d_targetPath det2 = Some ''projects/a-1.md''" by blast
  from full have full': "list_all (\<lambda>p. \<exists>x. readNote example_env (db crowded_world) p = Inr (Some x))
        (candidates ''projects/a.md'')" by (simp add: list_all_iff)
  from len full' conf tgt exhausted fails seq show ?thesis by blast
qed

end
